theory Spec2Isabelle
  imports Complex_Main "HOL-Library.Word" "HOL-Library.Log_Nat"
begin

unbundle bit_operations_syntax

section \<open>Binary floating point\<close>

text \<open>
  The firmware computes in C \<open>float\<close> (IEEE 754 binary32) and the host in JavaScript
  numbers (binary64). A finite float is modelled by its exact value in an ordered field
  with a floor function (\<open>rat\<close> where the model is run, \<open>real\<close> where \<open>powf\<close> appears);
  every arithmetic operation rounds its exact result to the nearest representable value,
  ties to even: \<open>fl_round p umin\<close> keeps \<open>p\<close> significant bits and never goes below the
  unit \<open>2 powi umin\<close> (the subnormal spacing). Signed zeros are not distinguished.
\<close>

definition rne :: "'a::floor_ceiling \<Rightarrow> int" where
  "rne x = (let f = \<lfloor>x\<rfloor>; d = x - of_int f in
            if d < 1 / 2 then f else if 1 / 2 < d then f + 1
            else if even f then f else f + 1)"

definition ilog2 :: "'a::floor_ceiling \<Rightarrow> int" where
  "ilog2 x = (if 1 \<le> x then bitlen \<lfloor>x\<rfloor> - 1 else - bitlen (\<lceil>1 / x\<rceil> - 1))"

definition fl_round :: "nat \<Rightarrow> int \<Rightarrow> 'a::floor_ceiling \<Rightarrow> 'a" where
  "fl_round p umin x =
     (if x = 0 then 0
      else let u = max (ilog2 \<bar>x\<bar> - (int p - 1)) umin
           in sgn x * of_int (rne (\<bar>x\<bar> / 2 powi u)) * 2 powi u)"

definition f32 :: "'a::floor_ceiling \<Rightarrow> 'a" where
  "f32 = fl_round 24 (- 149)"

text \<open>Conversion of a C float to an integer type truncates towards zero.\<close>

definition c_trunc :: "'a::floor_ceiling \<Rightarrow> int" where
  "c_trunc x = (if 0 \<le> x then \<lfloor>x\<rfloor> else \<lceil>x\<rceil>)"

subsection \<open>JavaScript numbers\<close>

datatype jsnum = NaN | NInf | Fin rat | PInf

definition f64 :: "rat \<Rightarrow> jsnum" where
  "f64 x = (let r = fl_round 53 (- 1074) x in
            if 2 ^ 1024 \<le> r then PInf else if r \<le> - (2 ^ 1024) then NInf else Fin r)"

fun js_neg :: "jsnum \<Rightarrow> jsnum" where
  "js_neg NaN = NaN"
| "js_neg NInf = PInf"
| "js_neg PInf = NInf"
| "js_neg (Fin a) = Fin (- a)"

fun js_add :: "jsnum \<Rightarrow> jsnum \<Rightarrow> jsnum" where
  "js_add NaN _ = NaN"
| "js_add _ NaN = NaN"
| "js_add (Fin a) (Fin b) = f64 (a + b)"
| "js_add PInf NInf = NaN"
| "js_add NInf PInf = NaN"
| "js_add PInf _ = PInf"
| "js_add _ PInf = PInf"
| "js_add NInf _ = NInf"
| "js_add _ NInf = NInf"

definition js_sub :: "jsnum \<Rightarrow> jsnum \<Rightarrow> jsnum" where
  "js_sub a b = js_add a (js_neg b)"

fun js_sign_inf :: "bool \<Rightarrow> jsnum" where
  "js_sign_inf True = PInf"
| "js_sign_inf False = NInf"

fun js_mul :: "jsnum \<Rightarrow> jsnum \<Rightarrow> jsnum" where
  "js_mul NaN _ = NaN"
| "js_mul _ NaN = NaN"
| "js_mul (Fin a) (Fin b) = f64 (a * b)"
| "js_mul (Fin a) PInf = (if a = 0 then NaN else js_sign_inf (0 < a))"
| "js_mul (Fin a) NInf = (if a = 0 then NaN else js_sign_inf (a < 0))"
| "js_mul PInf (Fin b) = (if b = 0 then NaN else js_sign_inf (0 < b))"
| "js_mul NInf (Fin b) = (if b = 0 then NaN else js_sign_inf (b < 0))"
| "js_mul PInf PInf = PInf"
| "js_mul NInf NInf = PInf"
| "js_mul PInf NInf = NInf"
| "js_mul NInf PInf = NInf"

text \<open>Division; a zero divisor is taken as \<open>+0\<close>.\<close>

fun js_div :: "jsnum \<Rightarrow> jsnum \<Rightarrow> jsnum" where
  "js_div NaN _ = NaN"
| "js_div _ NaN = NaN"
| "js_div (Fin a) (Fin b) =
     (if b = 0 then (if a = 0 then NaN else js_sign_inf (0 < a)) else f64 (a / b))"
| "js_div (Fin a) PInf = Fin 0"
| "js_div (Fin a) NInf = Fin 0"
| "js_div PInf (Fin b) = js_sign_inf (0 \<le> b)"
| "js_div NInf (Fin b) = js_sign_inf (b < 0)"
| "js_div PInf PInf = NaN"
| "js_div NInf NInf = NaN"
| "js_div PInf NInf = NaN"
| "js_div NInf PInf = NaN"

text \<open>The comparison \<open>a > b\<close>: false as soon as one side is NaN.\<close>

fun js_gt :: "jsnum \<Rightarrow> jsnum \<Rightarrow> bool" where
  "js_gt NaN _ = False"
| "js_gt _ NaN = False"
| "js_gt (Fin a) (Fin b) = (b < a)"
| "js_gt PInf PInf = False"
| "js_gt PInf _ = True"
| "js_gt NInf _ = False"
| "js_gt (Fin a) NInf = True"
| "js_gt (Fin a) PInf = False"

fun js_eq :: "jsnum \<Rightarrow> jsnum \<Rightarrow> bool" where
  "js_eq NaN _ = False"
| "js_eq _ NaN = False"
| "js_eq a b = (a = b)"

definition js_ge :: "jsnum \<Rightarrow> jsnum \<Rightarrow> bool" where
  "js_ge a b = (js_gt a b \<or> js_eq a b)"

text \<open>\<open>Math.min\<close>, \<open>Math.max\<close> and \<open>Math.ceil\<close>.\<close>

fun js_min :: "jsnum \<Rightarrow> jsnum \<Rightarrow> jsnum" where
  "js_min NaN _ = NaN"
| "js_min _ NaN = NaN"
| "js_min a b = (if js_gt a b then b else a)"

fun js_max :: "jsnum \<Rightarrow> jsnum \<Rightarrow> jsnum" where
  "js_max NaN _ = NaN"
| "js_max _ NaN = NaN"
| "js_max a b = (if js_gt b a then b else a)"

fun js_ceil :: "jsnum \<Rightarrow> jsnum" where
  "js_ceil (Fin a) = Fin (of_int \<lceil>a\<rceil>)"
| "js_ceil a = a"

fun isNaN :: "jsnum \<Rightarrow> bool" where
  "isNaN NaN = True"
| "isNaN _ = False"

type_synonym u8 = "8 word"
type_synonym u16 = "16 word"
type_synonym u32 = "32 word"

text \<open>Storing a number into a \<open>Uint8ClampedArray\<close> (ECMAScript \<open>ToUint8Clamp\<close>).\<close>

fun ToUint8Clamp :: "jsnum \<Rightarrow> u8" where
  "ToUint8Clamp NaN = 0"
| "ToUint8Clamp NInf = 0"
| "ToUint8Clamp PInf = 255"
| "ToUint8Clamp (Fin x) =
     (if x \<le> 0 then 0 else if 255 \<le> x then 255 else word_of_int (rne x))"

section \<open>Device firmware (WS2812 proxy)\<close>

definition NUM_CHANNELS :: nat where "NUM_CHANNELS = 8"
definition MAX_LEDS_PER_CHANNEL :: nat where "MAX_LEDS_PER_CHANNEL = 200"
definition CURRENT_LIMIT_THRESHOLD :: nat where "CURRENT_LIMIT_THRESHOLD = 30000"
definition TEST_PATTERN_DEFAULT_LEDS :: nat where "TEST_PATTERN_DEFAULT_LEDS = 200"
definition NUM_TEST_PATTERNS :: nat where "NUM_TEST_PATTERNS = 6"
definition TERNARY_NUM_DIGITS :: nat where "TERNARY_NUM_DIGITS = 9"

definition CMD_UPDATE_AND_FLUSH :: u8 where "CMD_UPDATE_AND_FLUSH = 0xFF"
definition CMD_UPDATE_ONLY :: u8 where "CMD_UPDATE_ONLY = 0xFE"
definition CMD_FLUSH :: u8 where "CMD_FLUSH = 0xFD"
definition CMD_RESET :: u8 where "CMD_RESET = 0xFC"
definition CMD_START_PATTERN :: u8 where "CMD_START_PATTERN = 0xFB"
definition CMD_STOP_PATTERN :: u8 where "CMD_STOP_PATTERN = 0xFA"
definition CMD_CLEAR_ALL :: u8 where "CMD_CLEAR_ALL = 0xF9"

subsection \<open>Gamma table\<close>

text \<open>
  \<open>calc_gamma_table\<close> with gamma correction enabled. The C library's \<open>powf\<close> is a
  parameter. Entry 0 is set to 0; entry \<open>i \<ge> 1\<close> is
  \<open>(uint8_t)(powf((float)i / 255.0f, gamma) * 255.0f + 0.5f)\<close>.
\<close>

definition gamma_entry :: "('a::floor_ceiling \<Rightarrow> 'a \<Rightarrow> 'a) \<Rightarrow> 'a \<Rightarrow> nat \<Rightarrow> u8" where
  "gamma_entry powf gamma i =
     (if i = 0 then 0
      else let normalized = f32 (of_nat i / 255);
               corrected = powf normalized gamma
           in word_of_int (c_trunc (f32 (f32 (corrected * 255) + 1 / 2))))"

definition calc_gamma_table :: "('a::floor_ceiling \<Rightarrow> 'a \<Rightarrow> 'a) \<Rightarrow> 'a \<Rightarrow> u8 list" where
  "calc_gamma_table powf gamma = map (gamma_entry powf gamma) [0..<256]"

text \<open>The table with gamma correction disabled.\<close>

definition gamma_table_identity :: "u8 list" where
  "gamma_table_identity = map of_nat [0..<256]"

definition gamma_correct :: "u8 list \<Rightarrow> u8 \<Rightarrow> u8" where
  "gamma_correct lut v = lut ! unat v"

definition pack_grb :: "u8 \<Rightarrow> u8 \<Rightarrow> u8 \<Rightarrow> u32" where
  "pack_grb g r b =
     push_bit 8 (push_bit 16 (ucast g) OR push_bit 8 (ucast r) OR (ucast b :: u32))"

definition rgb_to_grb :: "u8 list \<Rightarrow> u8 \<Rightarrow> u8 \<Rightarrow> u8 \<Rightarrow> u32" where
  "rgb_to_grb lut r g b =
     pack_grb (gamma_correct lut g) (gamma_correct lut r) (gamma_correct lut b)"

definition px_g :: "u32 \<Rightarrow> u8" where
  "px_g p = ucast (drop_bit 16 (drop_bit 8 p) AND 0xFF)"

definition px_r :: "u32 \<Rightarrow> u8" where
  "px_r p = ucast (drop_bit 8 (drop_bit 8 p) AND 0xFF)"

definition px_b :: "u32 \<Rightarrow> u8" where
  "px_b p = ucast (drop_bit 8 p AND 0xFF)"

subsection \<open>Channels and double buffering\<close>

text \<open>
  \<open>active_buffer\<close> and \<open>output_buffer\<close> point to \<open>buffer_a\<close> and \<open>buffer_b\<close>, one
  each; \<open>active_is_a\<close> says which. \<open>dma_frame\<close> is the block of words handed to the
  last DMA transfer (\<open>led_count\<close> words of the output buffer), that is, what the LED
  string shows. Pin, PIO and DMA handles are left out.
\<close>

record channel =
  buffer_a :: "u32 list"
  buffer_b :: "u32 list"
  active_is_a :: bool
  dma_in_progress :: bool
  dma_frame :: "u32 list"
  led_count :: u16
  current_limit_events :: u32
  tripped :: bool
  trip_count :: u32

definition active_buffer :: "channel \<Rightarrow> u32 list" where
  "active_buffer ch = (if active_is_a ch then buffer_a ch else buffer_b ch)"

definition output_buffer :: "channel \<Rightarrow> u32 list" where
  "output_buffer ch = (if active_is_a ch then buffer_b ch else buffer_a ch)"

definition set_active_buffer :: "u32 list \<Rightarrow> channel \<Rightarrow> channel" where
  "set_active_buffer buf ch =
     (if active_is_a ch then ch\<lparr>buffer_a := buf\<rparr> else ch\<lparr>buffer_b := buf\<rparr>)"

definition ws2812_channel_init :: channel where
  "ws2812_channel_init =
     \<lparr>buffer_a = replicate MAX_LEDS_PER_CHANNEL 0,
      buffer_b = replicate MAX_LEDS_PER_CHANNEL 0,
      active_is_a = True, dma_in_progress = False, dma_frame = [],
      led_count = 0, current_limit_events = 0, tripped = False, trip_count = 0\<rparr>"

subsection \<open>Current limiting\<close>

definition calculate_brightness_units :: "u32 \<Rightarrow> u32" where
  "calculate_brightness_units p = ucast (px_r p) + ucast (px_g p) + ucast (px_b p)"

definition scale_u8 :: "rat \<Rightarrow> u8 \<Rightarrow> u8" where
  "scale_u8 scale c = word_of_int (c_trunc (f32 (of_nat (unat c) * scale)))"

definition scale_pixel :: "rat \<Rightarrow> u32 \<Rightarrow> u32" where
  "scale_pixel scale p =
     pack_grb (scale_u8 scale (px_g p)) (scale_u8 scale (px_r p)) (scale_u8 scale (px_b p))"

definition total_brightness :: "channel \<Rightarrow> u32" where
  "total_brightness ch =
     foldl (\<lambda>acc p. acc + calculate_brightness_units p) 0
       (take (unat (led_count ch)) (active_buffer ch))"

definition limit_scale :: "u32 \<Rightarrow> rat" where
  "limit_scale tb = f32 (f32 (of_nat CURRENT_LIMIT_THRESHOLD) / f32 (of_nat (unat tb)))"

definition apply_current_limiting :: "channel \<Rightarrow> channel" where
  "apply_current_limiting ch =
     (if led_count ch = 0 then ch
      else let tb = total_brightness ch in
        if of_nat CURRENT_LIMIT_THRESHOLD < tb
        then let scale = limit_scale tb;
                 n = unat (led_count ch);
                 buf = active_buffer ch
             in (set_active_buffer (map (scale_pixel scale) (take n buf) @ drop n buf) ch)
                  \<lparr>current_limit_events := current_limit_events ch + 1\<rparr>
        else ch)"

subsection \<open>Device state\<close>

datatype parser_state_t =
  STATE_WAIT_COMMAND | STATE_READ_CHANNEL | STATE_READ_COUNT_LOW | STATE_READ_COUNT_HIGH
| STATE_READ_RGB_DATA | STATE_READ_FLUSH_MASK | STATE_READ_PATTERN_ID

datatype system_mode_t = MODE_NORMAL | MODE_TEST_PATTERN

record parser_context_t =
  state :: parser_state_t
  current_command :: u8
  current_channel :: u8
  current_led_count :: u16
  current_led_index :: u16
  rgb_byte_index :: u8
  current_r :: u8
  current_g :: u8
  current_b :: u8
  auto_flush :: bool

record statistics_t =
  commands :: u32
  pixels :: u32
  flushes :: u32
  errors :: u32

text \<open>
  The globals of the firmware. \<open>rebooted\<close> is set by \<open>watchdog_reboot\<close>; nothing runs
  after it. The timestamps (\<open>last_serial_data_time\<close>, \<open>pattern_start_time\<close>) and the
  sensor readings are left out.
\<close>

record device =
  channels :: "channel list"
  gamma_lut :: "u8 list"
  parser :: parser_context_t
  system_mode :: system_mode_t
  current_test_pattern :: u8
  stats :: statistics_t
  rebooted :: bool

definition parser_init :: parser_context_t where
  "parser_init =
     \<lparr>state = STATE_WAIT_COMMAND, current_command = 0, current_channel = 0,
      current_led_count = 0, current_led_index = 0, rgb_byte_index = 0,
      current_r = 0, current_g = 0, current_b = 0, auto_flush = True\<rparr>"

definition device_boot :: "u8 list \<Rightarrow> device" where
  "device_boot lut =
     \<lparr>channels = replicate NUM_CHANNELS ws2812_channel_init, gamma_lut = lut,
      parser = parser_init, system_mode = MODE_NORMAL, current_test_pattern = 0,
      stats = \<lparr>commands = 0, pixels = 0, flushes = 0, errors = 0\<rparr>, rebooted = False\<rparr>"

definition ws2812_channel_update :: "nat \<Rightarrow> device \<Rightarrow> device" where
  "ws2812_channel_update channel_id d =
     (let ch = channels d ! channel_id in
      if led_count ch = 0 then d
      else let ch1 = ch\<lparr>dma_in_progress := False\<rparr>;
               ch2 = ch1\<lparr>active_is_a := \<not> active_is_a ch1\<rparr>;
               ch3 = ch2\<lparr>dma_frame := take (unat (led_count ch2)) (output_buffer ch2),
                         dma_in_progress := True\<rparr>
           in d\<lparr>channels := (channels d)[channel_id := ch3],
                stats := (stats d)\<lparr>flushes := flushes (stats d) + 1\<rparr>\<rparr>)"

definition flush_channels :: "u8 \<Rightarrow> device \<Rightarrow> device" where
  "flush_channels channel_mask d =
     foldl (\<lambda>d i. if channel_mask AND push_bit i 1 \<noteq> 0 then ws2812_channel_update i d else d)
       d [0..<NUM_CHANNELS]"

definition activate_test_pattern :: "u8 \<Rightarrow> device \<Rightarrow> device" where
  "activate_test_pattern pattern_id d =
     d\<lparr>channels := map (\<lambda>ch. ch\<lparr>led_count := of_nat TEST_PATTERN_DEFAULT_LEDS\<rparr>) (channels d),
       system_mode := MODE_TEST_PATTERN,
       current_test_pattern := pattern_id mod of_nat NUM_TEST_PATTERNS\<rparr>"

definition stop_test_pattern :: "device \<Rightarrow> device" where
  "stop_test_pattern d = d\<lparr>system_mode := MODE_NORMAL\<rparr>"

definition clear_channel :: "nat \<Rightarrow> device \<Rightarrow> device" where
  "clear_channel ch d =
     ws2812_channel_update ch
       (d\<lparr>channels := (channels d)[ch :=
            set_active_buffer (replicate MAX_LEDS_PER_CHANNEL 0)
              ((channels d ! ch)\<lparr>led_count := of_nat MAX_LEDS_PER_CHANNEL\<rparr>)]\<rparr>)"

definition clear_all :: "device \<Rightarrow> device" where
  "clear_all d = foldl (\<lambda>d ch. clear_channel ch d) (stop_test_pattern d) [0..<NUM_CHANNELS]"

subsection \<open>Protocol parser\<close>

definition set_state :: "parser_state_t \<Rightarrow> device \<Rightarrow> device" where
  "set_state s d = d\<lparr>parser := (parser d)\<lparr>state := s\<rparr>\<rparr>"

definition count_error :: "device \<Rightarrow> device" where
  "count_error d = d\<lparr>stats := (stats d)\<lparr>errors := errors (stats d) + 1\<rparr>\<rparr>"

definition wait_command :: "u8 \<Rightarrow> device \<Rightarrow> device" where
  "wait_command byte d0 =
     (let d = d0\<lparr>parser := (parser d0)\<lparr>current_command := byte\<rparr>,
                 stats := (stats d0)\<lparr>commands := commands (stats d0) + 1\<rparr>\<rparr> in
      if byte = CMD_UPDATE_AND_FLUSH
        then d\<lparr>parser := (parser d)\<lparr>auto_flush := True, state := STATE_READ_CHANNEL\<rparr>\<rparr>
      else if byte = CMD_UPDATE_ONLY
        then d\<lparr>parser := (parser d)\<lparr>auto_flush := False, state := STATE_READ_CHANNEL\<rparr>\<rparr>
      else if byte = CMD_FLUSH then set_state STATE_READ_FLUSH_MASK d
      else if byte = CMD_RESET then d\<lparr>rebooted := True\<rparr>
      else if byte = CMD_START_PATTERN then set_state STATE_READ_PATTERN_ID d
      else if byte = CMD_STOP_PATTERN then stop_test_pattern d
      else if byte = CMD_CLEAR_ALL then clear_all d
      else d)"

definition read_count_high :: "u8 \<Rightarrow> device \<Rightarrow> device" where
  "read_count_high byte d0 =
     (let cnt = current_led_count (parser d0) OR push_bit 8 (ucast byte);
          d = d0\<lparr>parser := (parser d0)\<lparr>current_led_count := cnt\<rparr>\<rparr> in
      if 0 < cnt \<and> cnt \<le> of_nat MAX_LEDS_PER_CHANNEL
      then let c = unat (current_channel (parser d)) in
        d\<lparr>parser := (parser d)\<lparr>current_led_index := 0, rgb_byte_index := 0,
                                  state := STATE_READ_RGB_DATA\<rparr>,
          channels := (channels d)[c := (channels d ! c)\<lparr>led_count := cnt\<rparr>],
          system_mode := MODE_NORMAL\<rparr>
      else set_state STATE_WAIT_COMMAND (count_error d))"

definition store_pixel :: "u8 \<Rightarrow> device \<Rightarrow> device" where
  "store_pixel byte d0 =
     (let p = parser d0;
          c = unat (current_channel p);
          ch = channels d0 ! c;
          px = rgb_to_grb (gamma_lut d0) (current_r p) (current_g p) byte;
          ch1 = set_active_buffer ((active_buffer ch)[unat (current_led_index p) := px]) ch;
          idx = current_led_index p + 1;
          d = d0\<lparr>parser := p\<lparr>current_b := byte, current_led_index := idx,
                                 rgb_byte_index := 0\<rparr>,
                  channels := (channels d0)[c := ch1],
                  stats := (stats d0)\<lparr>pixels := pixels (stats d0) + 1\<rparr>\<rparr> in
      if current_led_count p \<le> idx
      then let d1 = d\<lparr>channels := (channels d)[c := apply_current_limiting (channels d ! c)]\<rparr>;
               d2 = (if auto_flush p then ws2812_channel_update c d1 else d1)
           in set_state STATE_WAIT_COMMAND d2
      else d)"

definition read_rgb_data :: "u8 \<Rightarrow> device \<Rightarrow> device" where
  "read_rgb_data byte d =
     (let p = parser d in
      if rgb_byte_index p = 0
        then d\<lparr>parser := p\<lparr>current_r := byte, rgb_byte_index := rgb_byte_index p + 1\<rparr>\<rparr>
      else if rgb_byte_index p = 1
        then d\<lparr>parser := p\<lparr>current_g := byte, rgb_byte_index := rgb_byte_index p + 1\<rparr>\<rparr>
      else if rgb_byte_index p = 2 then store_pixel byte d
      else d)"

text \<open>One iteration of the byte loop of \<open>parse_uart_data\<close>.\<close>

definition parse_byte :: "device \<Rightarrow> u8 \<Rightarrow> device" where
  "parse_byte d byte =
     (case state (parser d) of
        STATE_WAIT_COMMAND \<Rightarrow> wait_command byte d
      | STATE_READ_PATTERN_ID \<Rightarrow> set_state STATE_WAIT_COMMAND (activate_test_pattern byte d)
      | STATE_READ_FLUSH_MASK \<Rightarrow> set_state STATE_WAIT_COMMAND (flush_channels byte d)
      | STATE_READ_CHANNEL \<Rightarrow>
          (if byte < of_nat NUM_CHANNELS
           then d\<lparr>parser := (parser d)\<lparr>current_channel := byte, state := STATE_READ_COUNT_LOW\<rparr>\<rparr>
           else set_state STATE_WAIT_COMMAND (count_error d))
      | STATE_READ_COUNT_LOW \<Rightarrow>
          d\<lparr>parser := (parser d)\<lparr>current_led_count := ucast byte,
                                    state := STATE_READ_COUNT_HIGH\<rparr>\<rparr>
      | STATE_READ_COUNT_HIGH \<Rightarrow> read_count_high byte d
      | STATE_READ_RGB_DATA \<Rightarrow> read_rgb_data byte d)"

text \<open>The bytes of the receive buffer, in order; a reset ends the run.\<close>

fun parse_uart_data :: "device \<Rightarrow> u8 list \<Rightarrow> device" where
  "parse_uart_data d [] = d"
| "parse_uart_data d (byte # bytes) =
     (if rebooted d then d else parse_uart_data (parse_byte d byte) bytes)"

subsection \<open>Ternary calibration pattern\<close>

fun div3_times :: "nat \<Rightarrow> u32 \<Rightarrow> u32" where
  "div3_times 0 n = n"
| "div3_times (Suc i) n = div3_times i (n div 3)"

definition get_ternary_digit :: "u16 \<Rightarrow> u8 \<Rightarrow> u8" where
  "get_ternary_digit led_id digit_pos =
     (let n0 = ucast led_id * 9 :: u32;
          n = n0 + (7 - n0 mod 7)
      in ucast (div3_times (unat digit_pos) n mod 3))"

text \<open>The digits shown by the nine digit frames of a cycle, for one LED.\<close>

definition ternary_sequence :: "u16 \<Rightarrow> u8 list" where
  "ternary_sequence led_id =
     map (\<lambda>k. get_ternary_digit led_id (of_nat k)) [0..<TERNARY_NUM_DIGITS]"

definition global_led_id :: "nat \<Rightarrow> nat \<Rightarrow> u16" where
  "global_led_id ch i = of_nat (ch * TEST_PATTERN_DEFAULT_LEDS + i)"

text \<open>The encoding in the words of the pattern's description: \<open>n = id * 9 + (7 - (id * 9 mod 7))\<close>.\<close>

definition ternary_code :: "nat \<Rightarrow> nat" where
  "ternary_code i = i * 9 + (7 - i * 9 mod 7)"

text \<open>A channel that shows 200 black LEDs: the DMA transfer in progress sends 200 zero words.\<close>

definition drives_black :: "channel \<Rightarrow> bool" where
  "drives_black ch \<longleftrightarrow>
     led_count ch = of_nat MAX_LEDS_PER_CHANNEL
     \<and> output_buffer ch = replicate MAX_LEDS_PER_CHANNEL 0
     \<and> dma_frame ch = replicate MAX_LEDS_PER_CHANNEL 0
     \<and> dma_in_progress ch"

text \<open>The RGB payload of an update command: three bytes per LED.\<close>

fun rgb_bytes :: "(u8 \<times> u8 \<times> u8) list \<Rightarrow> u8 list" where
  "rgb_bytes [] = []"
| "rgb_bytes ((r, g, b) # ps) = r # g # b # rgb_bytes ps"

definition channel_wf :: "channel \<Rightarrow> bool" where
  "channel_wf ch \<longleftrightarrow>
     length (buffer_a ch) = MAX_LEDS_PER_CHANNEL \<and> length (buffer_b ch) = MAX_LEDS_PER_CHANNEL"

definition device_wf :: "device \<Rightarrow> bool" where
  "device_wf d \<longleftrightarrow> length (channels d) = NUM_CHANNELS \<and> list_all channel_wf (channels d)"

text \<open>
  Scenario S5 on a freshly booted device: the state after the rejected command
  \<open>FE 09 01 00 FF 00 00\<close>, and after the update \<open>FF 00 01 00 10 20 30\<close> that follows it.
\<close>

definition s5_after_rejected :: device where
  "s5_after_rejected =
     parse_uart_data (device_boot gamma_table_identity) [0xFE, 0x09, 0x01, 0x00, 0xFF, 0x00, 0x00]"

definition s5_after_update :: device where
  "s5_after_update = parse_uart_data s5_after_rejected [0xFF, 0x00, 0x01, 0x00, 0x10, 0x20, 0x30]"

section \<open>Host (showrunner)\<close>

subsection \<open>Serial connection\<close>

text \<open>
  The errors raised on the host: \<open>TypeError\<close> is what reading a property of \<open>null\<close> or
  \<open>undefined\<close> raises.
\<close>

datatype js_error = SerialPortNotOpen | NoValidCoordinates | TypeError

text \<open>\<open>written\<close> collects the bytes handed to \<open>port.write\<close>, in order.\<close>

record serial_conn =
  port_open :: bool
  written :: "u8 list"

definition serial_write :: "u8 list \<Rightarrow> serial_conn \<Rightarrow> serial_conn \<times> js_error option" where
  "serial_write data s =
     (if \<not> port_open s then (s, Some SerialPortNotOpen)
      else (s\<lparr>written := written s @ data\<rparr>, None))"

text \<open>Reading a typed array out of range gives \<open>undefined\<close>, stored into a packet as 0.\<close>

definition flat_get :: "u8 list \<Rightarrow> nat \<Rightarrow> u8" where
  "flat_get flatBuffer i = (if i < length flatBuffer then flatBuffer ! i else 0)"

text \<open>The packet that \<open>sendFrameFlat\<close> builds: header, then the bytes of the flat buffer.\<close>

definition update_packet :: "nat \<Rightarrow> u8 list \<Rightarrow> nat \<Rightarrow> nat \<Rightarrow> u8 list" where
  "update_packet channel flatBuffer offset ledCount =
     [CMD_UPDATE_ONLY, of_nat channel, of_nat (ledCount mod 256), of_nat (ledCount div 256 mod 256)]
     @ map (\<lambda>i. flat_get flatBuffer (offset + i)) [0..<ledCount * 3]"

definition sendFrameFlat ::
  "nat \<Rightarrow> u8 list \<Rightarrow> nat \<Rightarrow> nat \<Rightarrow> serial_conn \<Rightarrow> serial_conn \<times> js_error option" where
  "sendFrameFlat channel flatBuffer offset ledCount s =
     serial_write (update_packet channel flatBuffer offset ledCount) s"

definition flush :: "u8 \<Rightarrow> serial_conn \<Rightarrow> serial_conn \<times> js_error option" where
  "flush channelMask s = serial_write [CMD_FLUSH, channelMask] s"

definition clearAll :: "serial_conn \<Rightarrow> serial_conn \<times> js_error option" where
  "clearAll s = serial_write [CMD_CLEAR_ALL] s"

subsection \<open>Configuration\<close>

text \<open>
  The environment as \<open>loadConfig\<close> reads it: the path of the coordinate file (unset is
  \<open>None\<close>), and each numeric setting after \<open>parseInt(process.env.X || default, 10)\<close>, an
  integer or \<open>None\<close> for \<open>NaN\<close>. \<open>env_WS_LISTEN_PORT\<close> is the port part of \<open>WS_LISTEN\<close>.
\<close>

record environment =
  env_LED_COORDS_FILE :: "string option"
  env_FPS :: "int option"
  env_LEDS_PER_CHANNEL :: "int option"
  env_NUM_CHANNELS :: "int option"
  env_WS_LISTEN_PORT :: "int option"
  env_WS_EVICTION_AGE :: "int option"
  env_WS_IDLE_TIMEOUT :: "int option"

record config =
  fps :: nat
  ledsPerChannel :: nat
  numChannels :: nat
  totalLeds :: nat
  wsListenPort :: nat
  wsEvictionAge :: int
  wsIdleTimeout :: int

datatype config_error =
  MissingCoordsFile | InvalidFps | InvalidLedsPerChannel | InvalidNumChannels
  | InvalidWsListenPort | InvalidWsEvictionAge | InvalidWsIdleTimeout

text \<open>\<open>isNaN(v) || bad(v)\<close>, the shape of every numeric check of \<open>loadConfig\<close>.\<close>

fun invalid :: "int option \<Rightarrow> (int \<Rightarrow> bool) \<Rightarrow> bool" where
  "invalid None bad = True"
| "invalid (Some v) bad = bad v"

text \<open>
  \<open>loadConfig\<close> computes \<open>totalLeds\<close> from the two LED settings and raises on the first
  setting that is missing or out of range, in the order of the source.
\<close>

definition loadConfig :: "environment \<Rightarrow> config_error + config" where
  "loadConfig env =
     (if env_LED_COORDS_FILE env = None \<or> env_LED_COORDS_FILE env = Some [] then Inl MissingCoordsFile
      else if invalid (env_FPS env) (\<lambda>v. v \<le> 0 \<or> 120 < v) then Inl InvalidFps
      else if invalid (env_LEDS_PER_CHANNEL env) (\<lambda>v. v \<le> 0 \<or> 200 < v) then Inl InvalidLedsPerChannel
      else if invalid (env_NUM_CHANNELS env) (\<lambda>v. v \<le> 0 \<or> 8 < v) then Inl InvalidNumChannels
      else if invalid (env_WS_LISTEN_PORT env) (\<lambda>v. v \<le> 0 \<or> 65535 < v) then Inl InvalidWsListenPort
      else if invalid (env_WS_EVICTION_AGE env) (\<lambda>v. v < 0) then Inl InvalidWsEvictionAge
      else if invalid (env_WS_IDLE_TIMEOUT env) (\<lambda>v. v \<le> 0) then Inl InvalidWsIdleTimeout
      else Inr \<lparr>fps = nat (the (env_FPS env)),
                ledsPerChannel = nat (the (env_LEDS_PER_CHANNEL env)),
                numChannels = nat (the (env_NUM_CHANNELS env)),
                totalLeds = nat (the (env_LEDS_PER_CHANNEL env)) * nat (the (env_NUM_CHANNELS env)),
                wsListenPort = nat (the (env_WS_LISTEN_PORT env)),
                wsEvictionAge = the (env_WS_EVICTION_AGE env),
                wsIdleTimeout = the (env_WS_IDLE_TIMEOUT env)\<rparr>)"

text \<open>The environment with every numeric setting at its default, and a coordinate file.\<close>

definition default_environment :: environment where
  "default_environment =
     \<lparr>env_LED_COORDS_FILE = Some ''coords.txt'', env_FPS = Some 30, env_LEDS_PER_CHANNEL = Some 200,
      env_NUM_CHANNELS = Some 6, env_WS_LISTEN_PORT = Some 8080, env_WS_EVICTION_AGE = Some 300,
      env_WS_IDLE_TIMEOUT = Some 30\<rparr>"

subsection \<open>Animation engine\<close>

text \<open>
  A thrown value, as far as the engine looks at it: \<open>null\<close> or \<open>undefined\<close>, of which
  reading \<open>.message\<close> raises a \<open>TypeError\<close>, or anything else (an \<open>Error\<close> object, a string,
  a number), of which \<open>.message\<close> can be read.
\<close>

datatype thrown = ThrownNullish | ThrownOther

text \<open>
  An entry of a returned array, as \<open>c * 255\<close> treats it: a number (its value after the
  conversion to a number), or a value whose conversion raises (a BigInt and a Symbol raise
  a \<open>TypeError\<close>, the \<open>valueOf\<close> of an object may throw anything).
\<close>

datatype component = Num jsnum | Unconvertible thrown

text \<open>
  What a call of the animation function can do: raise, return something that is not an
  array, or return an array.
\<close>

datatype anim_result = Throws thrown | NotArray | Arr "component list"

type_synonym 'p animation = "jsnum \<Rightarrow> jsnum \<Rightarrow> jsnum \<Rightarrow> jsnum \<Rightarrow> 'p \<Rightarrow> nat \<Rightarrow> anim_result"

type_synonym coordinates = "int \<rightharpoonup> jsnum \<times> jsnum \<times> jsnum"

definition getCoordinate :: "coordinates \<Rightarrow> int \<Rightarrow> (jsnum \<times> jsnum \<times> jsnum) option" where
  "getCoordinate coords ledId = coords ledId"

text \<open>\<open>frameCount\<close> counts the ticks of the render loop; the loop of \<open>start\<close> advances it.\<close>

record engine =
  frameBuffer :: "u8 list"
  frameCount :: nat
  running :: bool
  paused :: bool
  wasRunning :: bool

definition engine_init :: "config \<Rightarrow> engine" where
  "engine_init cfg =
     \<lparr>frameBuffer = replicate (totalLeds cfg * 3) 0, frameCount = 0, running = False,
      paused = False, wasRunning = False\<rparr>"

text \<open>
  The \<open>catch\<close> block of the per-LED loop. When \<open>frameCount % 300 === 0\<close> it logs
  \<open>err.message\<close>, and that read raises when the thrown value is \<open>null\<close> or \<open>undefined\<close>;
  nothing catches this inside \<open>renderFrame\<close>.
\<close>

definition catch_handler :: "nat \<Rightarrow> thrown \<Rightarrow> js_error option" where
  "catch_handler frames err =
     (if frames mod 300 = 0
      then (case err of ThrownNullish \<Rightarrow> Some TypeError | ThrownOther \<Rightarrow> None)
      else None)"

text \<open>The byte that the \<open>Uint8ClampedArray\<close> keeps of \<open>v * 255\<close>.\<close>

definition byte_of :: "jsnum \<Rightarrow> u8" where
  "byte_of v = ToUint8Clamp (js_mul v (Fin 255))"

text \<open>
  \<open>frameBuffer[i] = c * 255\<close>: the product is computed first, and when that raises nothing
  is stored.
\<close>

fun store :: "u8 list \<Rightarrow> nat \<Rightarrow> component \<Rightarrow> u8 list \<times> thrown option" where
  "store fb i (Num v) = (fb[i := byte_of v], None)"
| "store fb i (Unconvertible err) = (fb, Some err)"

text \<open>
  The \<open>try\<close> block of the per-LED loop: the frame buffer after it and the value it throws,
  if any. A result that fails the validation makes the block throw an \<open>Error\<close> object.
\<close>

definition try_block ::
  "'p animation \<Rightarrow> jsnum \<Rightarrow> jsnum \<Rightarrow> jsnum \<Rightarrow> jsnum \<Rightarrow> 'p \<Rightarrow> u8 list \<Rightarrow> nat
     \<Rightarrow> u8 list \<times> thrown option" where
  "try_block animationFunc x y z t params fb ledId =
     (case animationFunc x y z t params ledId of
        Throws err \<Rightarrow> (fb, Some err)
      | NotArray \<Rightarrow> (fb, Some ThrownOther)
      | Arr result \<Rightarrow>
          if length result < 3 then (fb, Some ThrownOther)
          else (case store fb (ledId * 3) (result ! 0) of
                  (fb1, Some err) \<Rightarrow> (fb1, Some err)
                | (fb1, None) \<Rightarrow>
                    (case store fb1 (ledId * 3 + 1) (result ! 1) of
                       (fb2, Some err) \<Rightarrow> (fb2, Some err)
                     | (fb2, None) \<Rightarrow> store fb2 (ledId * 3 + 2) (result ! 2))))"

text \<open>
  The body of the per-LED loop of \<open>renderFrame\<close>: the frame buffer after it, and the error
  that leaves the loop, if any.
\<close>

definition render_led ::
  "coordinates \<Rightarrow> 'p animation \<Rightarrow> 'p \<Rightarrow> jsnum \<Rightarrow> nat \<Rightarrow> u8 list \<Rightarrow> nat
     \<Rightarrow> u8 list \<times> js_error option" where
  "render_led coords animationFunc params t frames fb ledId =
     (case getCoordinate coords (int ledId) of
        None \<Rightarrow> (fb, None)
      | Some (x, y, z) \<Rightarrow>
          (case try_block animationFunc x y z t params fb ledId of
             (fb', Some err) \<Rightarrow> (fb', catch_handler frames err)
           | (fb', None) \<Rightarrow> (fb', None)))"

text \<open>The per-LED loop: it ends at the first LED whose handler raises.\<close>

fun render_loop ::
  "coordinates \<Rightarrow> 'p animation \<Rightarrow> 'p \<Rightarrow> jsnum \<Rightarrow> nat \<Rightarrow> nat list \<Rightarrow> u8 list
     \<Rightarrow> u8 list \<times> js_error option" where
  "render_loop coords animationFunc params t frames [] fb = (fb, None)"
| "render_loop coords animationFunc params t frames (ledId # rest) fb =
     (case render_led coords animationFunc params t frames fb ledId of
        (fb', Some e) \<Rightarrow> (fb', Some e)
      | (fb', None) \<Rightarrow> render_loop coords animationFunc params t frames rest fb')"

fun send_channels :: "config \<Rightarrow> u8 list \<Rightarrow> nat list \<Rightarrow> serial_conn \<Rightarrow> serial_conn \<times> js_error option" where
  "send_channels cfg fb [] s = (s, None)"
| "send_channels cfg fb (ch # chs) s =
     (case sendFrameFlat ch fb (ch * ledsPerChannel cfg * 3) (ledsPerChannel cfg) s of
        (s', Some e) \<Rightarrow> (s', Some e)
      | (s', None) \<Rightarrow> send_channels cfg fb chs s')"

text \<open>\<open>frameBuffer.fill(0)\<close>, then the loop over all LEDs.\<close>

definition render_leds ::
  "config \<Rightarrow> coordinates \<Rightarrow> 'p animation \<Rightarrow> 'p \<Rightarrow> jsnum \<Rightarrow> nat \<Rightarrow> u8 list
     \<Rightarrow> u8 list \<times> js_error option" where
  "render_leds cfg coords animationFunc params t frames fb =
     render_loop coords animationFunc params t frames [0..<totalLeds cfg]
       (replicate (length fb) 0)"

text \<open>
  One tick. An error that leaves the per-LED loop leaves \<open>renderFrame\<close>: no channel is
  sent and there is no flush.
\<close>

definition renderFrame ::
  "config \<Rightarrow> coordinates \<Rightarrow> 'p animation \<Rightarrow> 'p \<Rightarrow> jsnum \<Rightarrow> engine \<times> serial_conn
     \<Rightarrow> (engine \<times> serial_conn) \<times> js_error option" where
  "renderFrame cfg coords animationFunc params t es =
     (case render_leds cfg coords animationFunc params t (frameCount (fst es))
             (frameBuffer (fst es)) of
        (fb, Some e) \<Rightarrow> (((fst es)\<lparr>frameBuffer := fb\<rparr>, snd es), Some e)
      | (fb, None) \<Rightarrow>
          (let eng = (fst es)\<lparr>frameBuffer := fb\<rparr>
           in case send_channels cfg fb [0..<numChannels cfg] (snd es) of
                (s, Some e) \<Rightarrow> ((eng, s), Some e)
              | (s, None) \<Rightarrow> (case flush 0xFF s of (s', e) \<Rightarrow> ((eng, s'), e))))"

text \<open>
  The value that the \<open>try\<close> block throws for a given outcome of the call: the value
  thrown by the call, an \<open>Error\<close> object for a result that fails the validation, and
  otherwise what the first failing conversion among the first three entries throws.
\<close>

fun conversion_error :: "component \<Rightarrow> thrown option" where
  "conversion_error (Num v) = None"
| "conversion_error (Unconvertible err) = Some err"

definition thrown_by :: "anim_result \<Rightarrow> thrown option" where
  "thrown_by r =
     (case r of
        Throws err \<Rightarrow> Some err
      | NotArray \<Rightarrow> Some ThrownOther
      | Arr result \<Rightarrow>
          if length result < 3 then Some ThrownOther
          else (case conversion_error (result ! 0) of
                  Some err \<Rightarrow> Some err
                | None \<Rightarrow>
                    (case conversion_error (result ! 1) of
                       Some err \<Rightarrow> Some err
                     | None \<Rightarrow> conversion_error (result ! 2))))"

text \<open>
  The \<open>try\<close> block of the LED throws \<open>null\<close> or \<open>undefined\<close> on a tick on which the
  handler logs: the handler raises.
\<close>

definition handler_raises ::
  "coordinates \<Rightarrow> 'p animation \<Rightarrow> 'p \<Rightarrow> jsnum \<Rightarrow> nat \<Rightarrow> nat \<Rightarrow> bool" where
  "handler_raises coords animationFunc params t frames ledId =
     (case getCoordinate coords (int ledId) of
        None \<Rightarrow> False
      | Some (x, y, z) \<Rightarrow>
          frames mod 300 = 0
          \<and> thrown_by (animationFunc x y z t params ledId) = Some ThrownNullish)"

text \<open>
  \<open>createSafeWrapper\<close> of the animation loader; the showrunner installs the loaded function
  itself, not the wrapped one. The wrapper's own handler reads \<open>err.message\<close> on every
  error, so that a thrown \<open>null\<close> leaves the wrapper as a \<open>TypeError\<close>.
\<close>

definition createSafeWrapper :: "'p animation \<Rightarrow> 'p animation" where
  "createSafeWrapper animationFunc x y z t params ident =
     (case animationFunc x y z t params ident of
        Throws ThrownNullish \<Rightarrow> Throws ThrownOther
      | Throws ThrownOther \<Rightarrow> Arr [Num (Fin 0), Num (Fin 0), Num (Fin 0)]
      | NotArray \<Rightarrow> Arr [Num (Fin 0), Num (Fin 0), Num (Fin 0)]
      | Arr result \<Rightarrow>
          if length result < 3 then Arr [Num (Fin 0), Num (Fin 0), Num (Fin 0)] else Arr result)"

text \<open>The colour the engine emits for one LED, as three bytes.\<close>

definition led_bytes :: "u8 list \<Rightarrow> nat \<Rightarrow> u8 list" where
  "led_bytes fb ledId = [flat_get fb (ledId * 3), flat_get fb (ledId * 3 + 1), flat_get fb (ledId * 3 + 2)]"

text \<open>Scenario S1: one channel of two LEDs, both with coordinates, a solid red animation.\<close>

definition s1_coords :: coordinates where
  "s1_coords = [0 \<mapsto> (Fin 0, Fin 0, Fin 0), 1 \<mapsto> (Fin 1, Fin 1, Fin 1)]"

definition s1_red :: "unit animation" where
  "s1_red x y z t params ledId = Arr [Num (Fin 1), Num (Fin 0), Num (Fin 0)]"

definition s1_environment :: environment where
  "s1_environment = default_environment\<lparr>env_LEDS_PER_CHANNEL := Some 2, env_NUM_CHANNELS := Some 1\<rparr>"

definition s1_config :: config where
  "s1_config =
     \<lparr>fps = 30, ledsPerChannel = 2, numChannels = 1, totalLeds = 2, wsListenPort = 8080,
      wsEvictionAge = 300, wsIdleTimeout = 30\<rparr>"

definition s1_tick :: "(engine \<times> serial_conn) \<times> js_error option" where
  "s1_tick =
     renderFrame s1_config s1_coords s1_red () (Fin 0)
       (engine_init s1_config, \<lparr>port_open = True, written = []\<rparr>)"

text \<open>The same two LEDs on two channels of one LED each.\<close>

definition two_channel_environment :: environment where
  "two_channel_environment =
     default_environment\<lparr>env_LEDS_PER_CHANNEL := Some 1, env_NUM_CHANNELS := Some 2\<rparr>"

definition two_channel_config :: config where
  "two_channel_config =
     \<lparr>fps = 30, ledsPerChannel = 1, numChannels = 2, totalLeds = 2, wsListenPort = 8080,
      wsEvictionAge = 300, wsIdleTimeout = 30\<rparr>"

definition two_channel_tick :: "(engine \<times> serial_conn) \<times> js_error option" where
  "two_channel_tick =
     renderFrame two_channel_config s1_coords s1_red () (Fin 0)
       (engine_init two_channel_config, \<lparr>port_open = True, written = []\<rparr>)"

text \<open>
  The colour of one LED as the loop body decides it: black without a coordinate, black
  when the call raises or returns something that is not an array of at least three
  entries, and otherwise each of the first three entries times 255, clamped and rounded;
  an entry whose conversion raises ends the stores, so that it and the entries after it
  stay 0.
\<close>

definition led_color :: "coordinates \<Rightarrow> 'p animation \<Rightarrow> 'p \<Rightarrow> jsnum \<Rightarrow> nat \<Rightarrow> u8 list" where
  "led_color coords animationFunc params t ledId =
     (case getCoordinate coords (int ledId) of
        None \<Rightarrow> [0, 0, 0]
      | Some (x, y, z) \<Rightarrow>
          (case animationFunc x y z t params ledId of
             Throws err \<Rightarrow> [0, 0, 0]
           | NotArray \<Rightarrow> [0, 0, 0]
           | Arr result \<Rightarrow>
               if length result < 3 then [0, 0, 0]
               else (case (result ! 0, result ! 1, result ! 2) of
                       (Num r, Num g, Num b) \<Rightarrow> [byte_of r, byte_of g, byte_of b]
                     | (Num r, Num g, Unconvertible err) \<Rightarrow> [byte_of r, byte_of g, 0]
                     | (Num r, Unconvertible err, b) \<Rightarrow> [byte_of r, 0, 0]
                     | (Unconvertible err, g, b) \<Rightarrow> [0, 0, 0])))"










text \<open>
  The brightness sum of a channel in the words of the limiter's description: the sum of
  \<open>R + G + B\<close> over the first \<open>led_count\<close> LEDs of the active buffer.
\<close>

definition brightness_sum :: "channel \<Rightarrow> nat" where
  "brightness_sum ch =
     sum_list (map (\<lambda>p. unat (px_r p) + unat (px_g p) + unat (px_b p))
       (take (unat (led_count ch)) (active_buffer ch)))"

text \<open>
  A channel over the threshold: 64 LEDs, each \<open>(R, G, B) = (253, 253, 119)\<close>, so that
  the sum is 40000 and the scale is exactly \<open>3/4\<close>.
\<close>

definition c3_channel :: channel where
  "c3_channel = ws2812_channel_init
     \<lparr>buffer_a := replicate MAX_LEDS_PER_CHANNEL (pack_grb 253 253 119), led_count := 64\<rparr>"

text \<open>
  The C library's \<open>powf\<close>, taken as the correctly rounded real power. The gamma table
  of the firmware is \<open>calc_gamma_table powf_rounded gamma\<close>.
\<close>

definition powf_rounded :: "real \<Rightarrow> real \<Rightarrow> real" where
  "powf_rounded x y = f32 (x powr y)"

subsection \<open>Coordinate loader\<close>

text \<open>
  A data line of the coordinate file after tokenising: the result of \<open>parseInt\<close> on
  the id (\<open>None\<close> for NaN) and the results of \<open>parseFloat\<close> on the three
  coordinates. \<open>parseFloat\<close> gives NaN on text that is no number and \<open>Infinity\<close> on
  the text \<open>Infinity\<close>. \<open>load\<close> keeps the lines with no NaN, fails when none is left,
  and normalises.
\<close>

type_synonym raw_coord = "int \<times> jsnum \<times> jsnum \<times> jsnum"

definition axis_min :: "jsnum list \<Rightarrow> jsnum" where
  "axis_min vs = foldl js_min PInf vs"

definition axis_max :: "jsnum list \<Rightarrow> jsnum" where
  "axis_max vs = foldl js_max NInf vs"

definition normalize_axis :: "jsnum \<Rightarrow> jsnum \<Rightarrow> jsnum \<Rightarrow> jsnum" where
  "normalize_axis lo extent v =
     (if js_gt extent (Fin 0) then js_div (js_sub v lo) extent else Fin (1 / 2))"

definition normalizeCoordinates :: "raw_coord list \<Rightarrow> coordinates \<Rightarrow> coordinates" where
  "normalizeCoordinates rawCoordinates coords =
     (if rawCoordinates = [] then coords
      else let xs = map (\<lambda>(i, x, y, z). x) rawCoordinates;
               ys = map (\<lambda>(i, x, y, z). y) rawCoordinates;
               zs = map (\<lambda>(i, x, y, z). z) rawCoordinates;
               xMin = axis_min xs; xMax = axis_max xs;
               yMin = axis_min ys; yMax = axis_max ys;
               zMin = axis_min zs; zMax = axis_max zs;
               xRange = js_sub xMax xMin;
               yRange = js_sub yMax yMin;
               zRange = js_sub zMax zMin
           in foldl (\<lambda>m (i, x, y, z).
                  m(i \<mapsto> (normalize_axis xMin xRange x, normalize_axis yMin yRange y,
                          normalize_axis zMin zRange z)))
                coords rawCoordinates)"

fun valid_line :: "int option \<times> jsnum \<times> jsnum \<times> jsnum \<Rightarrow> raw_coord option" where
  "valid_line (None, x, y, z) = None"
| "valid_line (Some ledId, x, y, z) =
     (if isNaN x \<or> isNaN y \<or> isNaN z then None else Some (ledId, x, y, z))"

definition load :: "(int option \<times> jsnum \<times> jsnum \<times> jsnum) list \<Rightarrow> js_error + coordinates" where
  "load lines =
     (let rawCoords = List.map_filter valid_line lines in
      if rawCoords = [] then Inl NoValidCoordinates
      else Inr (normalizeCoordinates rawCoords Map.empty))"

text \<open>A component of a stored coordinate that lies in \<open>[0, 1]\<close>.\<close>

fun in_unit_interval :: "jsnum \<Rightarrow> bool" where
  "in_unit_interval (Fin v) = (0 \<le> v \<and> v \<le> 1)"
| "in_unit_interval _ = False"

text \<open>
  Two coordinate files: \<open>LED_0 Infinity 0 0\<close>, \<open>LED_1 0 0 0\<close>; and one with the finite
  values \<open>2^1023\<close> and \<open>-2^1023\<close> (about \<open>8.99e307\<close>) on the x axis.
\<close>

definition infinity_file :: "(int option \<times> jsnum \<times> jsnum \<times> jsnum) list" where
  "infinity_file = [(Some 0, PInf, Fin 0, Fin 0), (Some 1, Fin 0, Fin 0, Fin 0)]"

definition overflow_file :: "(int option \<times> jsnum \<times> jsnum \<times> jsnum) list" where
  "overflow_file = [(Some 0, Fin (2 ^ 1023), Fin 0, Fin 0), (Some 1, Fin (- (2 ^ 1023)), Fin 0, Fin 0)]"

subsection \<open>WebSocket takeover server\<close>

datatype error_code = EVICTED | SERVER_BUSY | IDLE_TIMEOUT | SERIAL_ERROR | SHUTDOWN

text \<open>The JSON error object; \<open>timestamp\<close> is the clock reading behind the ISO string.\<close>

record error_obj =
  error :: string
  code :: error_code
  timestamp :: int
  retryAfter :: "jsnum option"

type_synonym client = nat

text \<open>
  What the server does to sockets and listeners, in order: \<open>ws.send\<close> of a JSON
  error, \<open>ws.close\<close>, and events it emits.
\<close>

datatype ws_event = Sent client error_obj | Closed client | Emitted string

record ws_server =
  activeClient :: "client option"
  activeClientConnectTime :: "int option"
  idleTimer :: "int option"
  events :: "ws_event list"

type_synonym host = "ws_server \<times> engine \<times> serial_conn"

definition sendError :: "client \<Rightarrow> error_obj \<Rightarrow> ws_server \<Rightarrow> ws_server" where
  "sendError ws errorObj srv = srv\<lparr>events := events srv @ [Sent ws errorObj]\<rparr>"

definition pause :: "engine \<times> serial_conn \<Rightarrow> (engine \<times> serial_conn) \<times> js_error option" where
  "pause es =
     (if paused (fst es) then (es, None)
      else let eng = (fst es)\<lparr>paused := True, wasRunning := running (fst es), running := False\<rparr>
           in case clearAll (snd es) of (s, e) \<Rightarrow> ((eng, s), e))"

text \<open>The idle timer is armed with its delay in milliseconds.\<close>

definition resetIdleTimer :: "config \<Rightarrow> ws_server \<Rightarrow> ws_server" where
  "resetIdleTimer cfg srv = srv\<lparr>idleTimer := Some (wsIdleTimeout cfg * 1000)\<rparr>"

definition acceptConnection :: "config \<Rightarrow> client \<Rightarrow> int \<Rightarrow> host \<Rightarrow> host \<times> js_error option" where
  "acceptConnection cfg ws now h =
     (case h of (srv, eng, ser) \<Rightarrow>
        let srv1 = srv\<lparr>activeClient := Some ws, activeClientConnectTime := Some now\<rparr> in
        case pause (eng, ser) of
          ((eng', ser'), Some e) \<Rightarrow> ((srv1, eng', ser'), Some e)
        | ((eng', ser'), None) \<Rightarrow>
            (((resetIdleTimer cfg srv1)\<lparr>events := events srv1 @ [Emitted ''client-connected'']\<rparr>,
              eng', ser'), None))"

text \<open>\<open>(Date.now() - this.activeClientConnectTime) / 1000\<close>; \<open>null\<close> counts as 0.\<close>

definition connectionAge :: "int \<Rightarrow> ws_server \<Rightarrow> jsnum" where
  "connectionAge now srv =
     js_div (js_sub (Fin (of_int now))
               (case activeClientConnectTime srv of None \<Rightarrow> Fin 0 | Some t \<Rightarrow> Fin (of_int t)))
       (Fin 1000)"

text \<open>
  \<open>handleConnection\<close> reads the clock three times: \<open>now\<close> for the age, \<open>stamp\<close> for
  the timestamp of the error it sends, \<open>now'\<close> when it accepts.
\<close>

definition closeClient :: "client \<Rightarrow> ws_server \<Rightarrow> ws_server" where
  "closeClient ws srv = srv\<lparr>events := events srv @ [Closed ws]\<rparr>"

definition handleConnection ::
  "config \<Rightarrow> client \<Rightarrow> int \<Rightarrow> int \<Rightarrow> int \<Rightarrow> host \<Rightarrow> host \<times> js_error option" where
  "handleConnection cfg ws now stamp now' h =
     (case h of (srv, eng, ser) \<Rightarrow>
        (case activeClient srv of
           Some old \<Rightarrow>
             let age = connectionAge now srv in
             if js_ge age (Fin (of_int (wsEvictionAge cfg)))
             then let srv1 = sendError old
                               \<lparr>error = ''Connection evicted by new client'', code = EVICTED,
                                timestamp = stamp, retryAfter = None\<rparr> srv;
                      srv2 = closeClient old srv1
                  in acceptConnection cfg ws now' (srv2, eng, ser)
             else let retry = js_ceil (js_sub (Fin (of_int (wsEvictionAge cfg))) age);
                      srv1 = sendError ws
                               \<lparr>error = ''Server busy - exclusive connection in use'',
                                code = SERVER_BUSY, timestamp = stamp, retryAfter = Some retry\<rparr> srv;
                      srv2 = closeClient ws srv1
                  in ((srv2, eng, ser), None)
         | None \<Rightarrow> acceptConnection cfg ws now' (srv, eng, ser)))"

text \<open>
  Scenario S3: eviction age 1 s; client 1 connected at time 0 and is active; the engine
  is paused and the serial port open.
\<close>

definition s3_environment :: environment where
  "s3_environment = default_environment\<lparr>env_WS_EVICTION_AGE := Some 1\<rparr>"

definition s3_config :: config where
  "s3_config =
     \<lparr>fps = 30, ledsPerChannel = 200, numChannels = 6, totalLeds = 1200, wsListenPort = 8080,
      wsEvictionAge = 1, wsIdleTimeout = 30\<rparr>"

definition s3_idle :: ws_server where
  "s3_idle = \<lparr>activeClient = None, activeClientConnectTime = None, idleTimer = None, events = []\<rparr>"

definition s3_busy :: ws_server where
  "s3_busy =
     \<lparr>activeClient = Some 1, activeClientConnectTime = Some 0, idleTimer = Some 30000,
      events = [Emitted ''client-connected'']\<rparr>"

definition s3_engine :: engine where
  "s3_engine = (engine_init s3_config)\<lparr>paused := True\<rparr>"

definition s3_serial :: serial_conn where
  "s3_serial = \<lparr>port_open = True, written = [0xF9]\<rparr>"


section \<open>Ternary calibration encoding\<close>

lemma unat_div3_times: "unat (div3_times k n) = unat n div 3 ^ k"
  by (induction k arbitrary: n) (simp_all add: unat_div div_mult2_eq)

lemma unat_ternary_n:
  fixes led_id :: u16
  defines "n0 \<equiv> (ucast led_id * 9 :: u32)"
  shows "unat (n0 + (7 - n0 mod 7)) = ternary_code (unat led_id)"
proof -
  have lt: "unat led_id < 65536" using unsigned_less [of led_id] by simp
  have uc: "unat (ucast led_id :: u32) = unat led_id"
    using lt by (simp add: unsigned_ucast_eq take_bit_nat_eq_self)
  have n0: "unat n0 = unat led_id * 9"
    unfolding n0_def using lt by (simp add: unat_word_ariths uc)
  have m: "unat (n0 mod 7) = unat led_id * 9 mod 7"
    by (simp add: unat_mod n0)
  have m7: "unat (n0 mod 7) < 7" by (simp add: m)
  have "n0 mod 7 \<le> 7" using m7 by (simp add: word_le_nat_alt)
  then have s: "unat (7 - n0 mod 7) = 7 - unat led_id * 9 mod 7"
    by (simp add: unat_sub m)
  show ?thesis
    using lt by (simp add: unat_word_ariths n0 s ternary_code_def)
qed

lemma unat_get_ternary_digit:
  "unat (get_ternary_digit led_id digit_pos) = ternary_code (unat led_id) div 3 ^ unat digit_pos mod 3"
proof -
  let ?n = "(ucast led_id * 9 :: u32) + (7 - (ucast led_id * 9 :: u32) mod 7)"
  have "unat (div3_times (unat digit_pos) ?n mod 3) = ternary_code (unat led_id) div 3 ^ unat digit_pos mod 3"
    by (simp add: unat_mod unat_div3_times unat_ternary_n)
  moreover have "unat (div3_times (unat digit_pos) ?n mod 3) < 3"
    by (simp add: unat_mod)
  ultimately show ?thesis
    by (simp add: get_ternary_digit_def Let_def unsigned_ucast_eq take_bit_nat_eq_self)
qed

lemma base3_digits_eq:
  "x < 3 ^ n \<Longrightarrow> y < 3 ^ n \<Longrightarrow> (\<forall>k<n. x div 3 ^ k mod 3 = y div 3 ^ k mod 3) \<Longrightarrow> x = (y::nat)"
proof (induction n arbitrary: x y)
  case 0
  then show ?case by simp
next
  case (Suc n)
  have "x div 3 = y div 3"
  proof (rule Suc.IH)
    show "x div 3 < 3 ^ n" using Suc.prems(1) by (simp add: less_mult_imp_div_less mult.commute)
    show "y div 3 < 3 ^ n" using Suc.prems(2) by (simp add: less_mult_imp_div_less mult.commute)
    show "\<forall>k<n. x div 3 div 3 ^ k mod 3 = y div 3 div 3 ^ k mod 3"
    proof (intro allI impI)
      fix k assume "k < n"
      then have "x div 3 ^ Suc k mod 3 = y div 3 ^ Suc k mod 3"
        using Suc.prems(3) by (meson Suc_less_eq)
      then show "x div 3 div 3 ^ k mod 3 = y div 3 div 3 ^ k mod 3"
        by (simp add: div_mult2_eq)
    qed
  qed
  moreover have "x mod 3 = y mod 3" using Suc.prems(3) [rule_format, of 0] by simp
  ultimately show ?case by (metis div_mult_mod_eq)
qed

lemma ternary_code_bounds: "i * 9 + 1 \<le> ternary_code i \<and> ternary_code i \<le> i * 9 + 7"
proof -
  have "i * 9 mod 7 < 7" by simp
  then show ?thesis unfolding ternary_code_def by linarith
qed

lemma ternary_code_inj: "ternary_code a = ternary_code b \<Longrightarrow> a = b"
  using ternary_code_bounds [of a] ternary_code_bounds [of b] by linarith

lemma ternary_code_fits: "i < 1600 \<Longrightarrow> ternary_code i < 3 ^ 9"
  using ternary_code_bounds [of i] by simp

text \<open>
  C7: any two distinct global LED ids below \<open>8 * 200\<close> get different digit sequences:
  the encoded values fit in nine base-3 digits, \<open>get_ternary_digit\<close> returns the
  \<open>k\<close>-th base-3 digit of the encoded value, and the sequences of two distinct ids
  differ at some position \<open>k < 9\<close>.
\<close>

theorem ternary_uniqueness:
  assumes "a < NUM_CHANNELS * TEST_PATTERN_DEFAULT_LEDS" and "b < NUM_CHANNELS * TEST_PATTERN_DEFAULT_LEDS"
    and "a \<noteq> b"
  shows "ternary_code a < 3 ^ 9 \<and> ternary_code b < 3 ^ 9
    \<and> (\<forall>k<9. unat (get_ternary_digit (of_nat a) (of_nat k)) = ternary_code a div 3 ^ k mod 3)
    \<and> (\<exists>k<9. get_ternary_digit (of_nat a) (of_nat k) \<noteq> get_ternary_digit (of_nat b) (of_nat k))"
proof -
  have a: "a < 1600" and b: "b < 1600"
    using assms by (simp_all add: NUM_CHANNELS_def TEST_PATTERN_DEFAULT_LEDS_def)
  have ua: "unat (of_nat a :: u16) = a" using a by (simp add: unat_of_nat)
  have ub: "unat (of_nat b :: u16) = b" using b by (simp add: unat_of_nat)
  have uk: "unat (of_nat k :: u8) = k" if "k < 9" for k using that by (simp add: unat_of_nat)
  have fa: "ternary_code a < 3 ^ 9" by (rule ternary_code_fits [OF a])
  have fb: "ternary_code b < 3 ^ 9" by (rule ternary_code_fits [OF b])
  have dig: "\<forall>k<9. unat (get_ternary_digit (of_nat a) (of_nat k)) = ternary_code a div 3 ^ k mod 3"
    by (simp add: unat_get_ternary_digit ua uk)
  have "\<exists>k<9. get_ternary_digit (of_nat a) (of_nat k) \<noteq> get_ternary_digit (of_nat b) (of_nat k)"
  proof (rule ccontr)
    assume "\<not> ?thesis"
    then have "\<forall>k<9. unat (get_ternary_digit (of_nat a) (of_nat k :: u8)) = unat (get_ternary_digit (of_nat b) (of_nat k :: u8))"
      by simp
    then have "\<forall>k<9. ternary_code a div 3 ^ k mod 3 = ternary_code b div 3 ^ k mod 3"
      by (simp add: unat_get_ternary_digit ua ub uk)
    then have "ternary_code a = ternary_code b"
      using base3_digits_eq [OF fa fb] by blast
    then show False using ternary_code_inj assms(3) by blast
  qed
  with fa fb dig show ?thesis by blast
qed

theorem ternary_uniqueness_witness:
  "(3::nat) < NUM_CHANNELS * TEST_PATTERN_DEFAULT_LEDS \<and> (1599::nat) < NUM_CHANNELS * TEST_PATTERN_DEFAULT_LEDS
   \<and> (3::nat) \<noteq> 1599
   \<and> (\<exists>k<9. get_ternary_digit (of_nat 3) (of_nat k) \<noteq> get_ternary_digit (of_nat 1599) (of_nat k))"
proof -
  have h: "(3::nat) < NUM_CHANNELS * TEST_PATTERN_DEFAULT_LEDS" "(1599::nat) < NUM_CHANNELS * TEST_PATTERN_DEFAULT_LEDS"
    "(3::nat) \<noteq> 1599"
    by (simp_all add: NUM_CHANNELS_def TEST_PATTERN_DEFAULT_LEDS_def)
  from ternary_uniqueness [OF h] h show ?thesis by blast
qed

section \<open>Clear All\<close>

lemma clear_channel_channels:
  assumes "c < length (channels d)"
  shows "length (channels (clear_channel c d)) = length (channels d)"
    and "drives_black (channels (clear_channel c d) ! c)"
    and "\<And>c'. c' \<noteq> c \<Longrightarrow> channels (clear_channel c d) ! c' = channels d ! c'"
  using assms
  by (auto simp add: clear_channel_def ws2812_channel_update_def Let_def drives_black_def
      set_active_buffer_def output_buffer_def MAX_LEDS_PER_CHANNEL_def)

lemma clear_channel_rest:
  assumes "c < length (channels d)"
  shows "system_mode (clear_channel c d) = system_mode d"
    and "parser (clear_channel c d) = parser d"
    and "rebooted (clear_channel c d) = rebooted d"
    and "flushes (stats (clear_channel c d)) = flushes (stats d) + 1"
    and "errors (stats (clear_channel c d)) = errors (stats d)"
  using assms
  by (auto simp add: clear_channel_def ws2812_channel_update_def Let_def
      set_active_buffer_def MAX_LEDS_PER_CHANNEL_def)

lemma clear_loop:
  assumes "n \<le> length (channels d)"
  defines "d' \<equiv> foldl (\<lambda>d ch. clear_channel ch d) d [0..<n]"
  shows "length (channels d') = length (channels d)
    \<and> (\<forall>c<n. drives_black (channels d' ! c))
    \<and> (\<forall>c\<ge>n. channels d' ! c = channels d ! c)
    \<and> system_mode d' = system_mode d \<and> parser d' = parser d \<and> rebooted d' = rebooted d
    \<and> flushes (stats d') = flushes (stats d) + of_nat n
    \<and> errors (stats d') = errors (stats d)"
  using assms(1) unfolding d'_def
proof (induction n)
  case 0
  then show ?case by simp
next
  case (Suc n)
  let ?e = "foldl (\<lambda>d ch. clear_channel ch d) d [0..<n]"
  have ih: "length (channels ?e) = length (channels d)"
    "\<forall>c<n. drives_black (channels ?e ! c)"
    "\<forall>c\<ge>n. channels ?e ! c = channels d ! c"
    "system_mode ?e = system_mode d" "parser ?e = parser d" "rebooted ?e = rebooted d"
    "flushes (stats ?e) = flushes (stats d) + of_nat n"
    "errors (stats ?e) = errors (stats d)"
    using Suc by simp_all
  have n: "n < length (channels ?e)" using Suc.prems ih(1) by simp
  have step: "foldl (\<lambda>d ch. clear_channel ch d) d [0..<Suc n] = clear_channel n ?e" by simp
  have black: "\<forall>c<Suc n. drives_black (channels (clear_channel n ?e) ! c)"
  proof (intro allI impI)
    fix c assume "c < Suc n"
    then consider "c = n" | "c < n" by linarith
    then show "drives_black (channels (clear_channel n ?e) ! c)"
    proof cases
      case 1
      then show ?thesis using clear_channel_channels(2) [OF n] by simp
    next
      case 2
      then show ?thesis using clear_channel_channels(3) [OF n, of c] ih(2) by simp
    qed
  qed
  have other: "\<forall>c\<ge>Suc n. channels (clear_channel n ?e) ! c = channels d ! c"
    using clear_channel_channels(3) [OF n] ih(3) by simp
  show ?case
    unfolding step
    using black other clear_channel_channels(1) [OF n] clear_channel_rest [OF n] ih
    by (simp add: add.assoc)
qed

text \<open>
  C10: the Clear All byte \<open>0xF9\<close>, received in \<open>STATE_WAIT_COMMAND\<close>, leaves the device
  in normal mode and the parser in \<open>STATE_WAIT_COMMAND\<close>; every channel then has
  \<open>led_count = 200\<close> and a DMA transfer of 200 zero words running, whatever its
  \<open>led_count\<close> was before; each of the 8 channels is flushed once.
\<close>

theorem clear_all_command:
  assumes "state (parser d) = STATE_WAIT_COMMAND" and "length (channels d) = NUM_CHANNELS"
  shows "system_mode (parse_byte d CMD_CLEAR_ALL) = MODE_NORMAL
    \<and> state (parser (parse_byte d CMD_CLEAR_ALL)) = STATE_WAIT_COMMAND
    \<and> (\<forall>c<NUM_CHANNELS. drives_black (channels (parse_byte d CMD_CLEAR_ALL) ! c))
    \<and> flushes (stats (parse_byte d CMD_CLEAR_ALL)) = flushes (stats d) + 8"
proof -
  let ?d1 = "d\<lparr>parser := (parser d)\<lparr>current_command := CMD_CLEAR_ALL\<rparr>,
         stats := (stats d)\<lparr>commands := commands (stats d) + 1\<rparr>\<rparr>"
  have pb: "parse_byte d CMD_CLEAR_ALL = clear_all ?d1"
    using assms(1)
    by (simp add: parse_byte_def wait_command_def Let_def CMD_CLEAR_ALL_def CMD_UPDATE_AND_FLUSH_def
        CMD_UPDATE_ONLY_def CMD_FLUSH_def CMD_RESET_def CMD_START_PATTERN_def CMD_STOP_PATTERN_def)
  have len: "NUM_CHANNELS \<le> length (channels (stop_test_pattern ?d1))"
    using assms(2) by (simp add: stop_test_pattern_def)
  from clear_loop [OF len] assms(1)
  show ?thesis
    unfolding pb clear_all_def
    by (simp add: stop_test_pattern_def NUM_CHANNELS_def)
qed

theorem clear_all_command_witness:
  "state (parser (device_boot gamma_table_identity)) = STATE_WAIT_COMMAND
   \<and> length (channels (device_boot gamma_table_identity)) = NUM_CHANNELS
   \<and> (0 :: nat) < NUM_CHANNELS \<and> (7 :: nat) < NUM_CHANNELS
   \<and> drives_black (channels (parse_byte (device_boot gamma_table_identity) CMD_CLEAR_ALL) ! 0)
   \<and> drives_black (channels (parse_byte (device_boot gamma_table_identity) CMD_CLEAR_ALL) ! 7)
   \<and> system_mode (parse_byte (device_boot gamma_table_identity) CMD_CLEAR_ALL) = MODE_NORMAL"
proof -
  have h: "state (parser (device_boot gamma_table_identity)) = STATE_WAIT_COMMAND"
    "length (channels (device_boot gamma_table_identity)) = NUM_CHANNELS"
    by (simp_all add: device_boot_def parser_init_def)
  have n: "(0 :: nat) < NUM_CHANNELS" "(7 :: nat) < NUM_CHANNELS"
    by (simp_all add: NUM_CHANNELS_def)
  from clear_all_command [OF h] h n show ?thesis by blast
qed

section \<open>Update header and partial payload\<close>

lemmas cmd_defs = CMD_UPDATE_AND_FLUSH_def CMD_UPDATE_ONLY_def CMD_FLUSH_def CMD_RESET_def
  CMD_START_PATTERN_def CMD_STOP_PATTERN_def CMD_CLEAR_ALL_def

lemma device_wf_boot: "device_wf (device_boot lut)"
  by (simp add: device_wf_def device_boot_def channel_wf_def ws2812_channel_init_def
      NUM_CHANNELS_def list_all_length)

lemma device_wf_nth: "device_wf d \<Longrightarrow> c < NUM_CHANNELS \<Longrightarrow> channel_wf (channels d ! c)"
  by (simp add: device_wf_def list_all_length)

lemma active_buffer_length: "channel_wf ch \<Longrightarrow> length (active_buffer ch) = MAX_LEDS_PER_CHANNEL"
  by (simp add: channel_wf_def active_buffer_def)

lemma count_word:
  fixes lo hi :: u8
  assumes "unat lo + 256 * unat hi \<le> 200"
  shows "(ucast lo OR push_bit 8 (ucast hi) :: u16) = of_nat (unat lo + 256 * unat hi)"
    and "unat (ucast lo OR push_bit 8 (ucast hi) :: u16) = unat lo + 256 * unat hi"
proof -
  have hi: "hi = 0" using assms by (simp add: unat_eq_0 [symmetric])
  have "unat lo < 256" using unsigned_less [of lo] by simp
  then have lo: "unat (ucast lo :: u16) = unat lo"
    by (simp add: unsigned_ucast_eq take_bit_nat_eq_self)
  show "(ucast lo OR push_bit 8 (ucast hi) :: u16) = of_nat (unat lo + 256 * unat hi)"
    by (simp add: hi)
  show "unat (ucast lo OR push_bit 8 (ucast hi) :: u16) = unat lo + 256 * unat hi"
    by (simp add: hi lo)
qed

lemma update_header:
  fixes cmd ch lo hi :: u8
  assumes st: "state (parser d) = STATE_WAIT_COMMAND" and nr: "\<not> rebooted d"
    and cmd: "cmd = CMD_UPDATE_AND_FLUSH \<or> cmd = CMD_UPDATE_ONLY"
    and ch: "unat ch < NUM_CHANNELS"
    and cnt: "0 < unat lo + 256 * unat hi" "unat lo + 256 * unat hi \<le> MAX_LEDS_PER_CHANNEL"
  shows "parse_uart_data d [cmd, ch, lo, hi] =
    d\<lparr>parser := (parser d)\<lparr>state := STATE_READ_RGB_DATA, current_command := cmd,
         current_channel := ch, current_led_count := of_nat (unat lo + 256 * unat hi),
         current_led_index := 0, rgb_byte_index := 0,
         auto_flush := (cmd = CMD_UPDATE_AND_FLUSH)\<rparr>,
       channels := (channels d)[unat ch :=
         (channels d ! unat ch)\<lparr>led_count := of_nat (unat lo + 256 * unat hi)\<rparr>],
       system_mode := MODE_NORMAL,
       stats := (stats d)\<lparr>commands := commands (stats d) + 1\<rparr>\<rparr>"
proof -
  have le: "unat lo + 256 * unat hi \<le> 200" using cnt(2) by (simp add: MAX_LEDS_PER_CHANNEL_def)
  note cw = count_word [OF le]
  have chlt: "ch < of_nat NUM_CHANNELS"
    using ch by (simp add: word_less_nat_alt NUM_CHANNELS_def)
  have pos: "0 < (ucast lo OR push_bit 8 (ucast hi) :: u16)"
    using cnt(1) cw(2) by (simp add: word_less_nat_alt)
  have ub: "(ucast lo OR push_bit 8 (ucast hi) :: u16) \<le> of_nat MAX_LEDS_PER_CHANNEL"
    using le cw(2) by (simp add: word_le_nat_alt MAX_LEDS_PER_CHANNEL_def)
  from cmd show ?thesis
  proof
    assume c: "cmd = CMD_UPDATE_AND_FLUSH"
    show ?thesis
      using st nr chlt pos ub
      by (simp add: c parse_byte_def wait_command_def read_count_high_def Let_def cw(1))
  next
    assume c: "cmd = CMD_UPDATE_ONLY"
    have ne: "CMD_UPDATE_ONLY \<noteq> CMD_UPDATE_AND_FLUSH" by (simp add: cmd_defs)
    show ?thesis
      using st nr chlt pos ub ne
      by (simp add: c parse_byte_def wait_command_def read_count_high_def Let_def cw(1))
  qed
qed


lemma parse_rebooted: "rebooted d \<Longrightarrow> parse_uart_data d bytes = d"
  by (cases bytes) simp_all

lemma parse_append:
  "parse_uart_data d (xs @ ys) = parse_uart_data (parse_uart_data d xs) ys"
  by (induction xs arbitrary: d) (simp_all add: parse_rebooted)

lemma pixel_step:
  assumes st: "state (parser d) = STATE_READ_RGB_DATA" and nr: "\<not> rebooted d"
    and bi: "rgb_byte_index (parser d) = 0"
    and more: "unat (current_led_index (parser d)) + 1 < unat (current_led_count (parser d))"
  shows "parse_uart_data d [r, g, b] =
    d\<lparr>parser := (parser d)\<lparr>current_r := r, current_g := g, current_b := b,
         current_led_index := current_led_index (parser d) + 1, rgb_byte_index := 0\<rparr>,
       channels := (channels d)[unat (current_channel (parser d)) :=
         set_active_buffer
           ((active_buffer (channels d ! unat (current_channel (parser d))))
              [unat (current_led_index (parser d)) := rgb_to_grb (gamma_lut d) r g b])
           (channels d ! unat (current_channel (parser d)))],
       stats := (stats d)\<lparr>pixels := pixels (stats d) + 1\<rparr>\<rparr>"
proof -
  have "unat (current_led_index (parser d) + 1) = unat (current_led_index (parser d)) + 1"
    using more unsigned_less [of "current_led_count (parser d)", where 'a = nat]
    by (simp add: unat_word_ariths)
  then have "\<not> current_led_count (parser d) \<le> current_led_index (parser d) + 1"
    using more by (simp add: word_le_nat_alt)
  then show ?thesis
    using st nr bi
    by (simp add: parse_byte_def read_rgb_data_def store_pixel_def Let_def)
qed

lemma payload_partial:
  assumes "state (parser d) = STATE_READ_RGB_DATA" and "\<not> rebooted d"
    and "rgb_byte_index (parser d) = 0"
    and "unat (current_channel (parser d)) = c" and "c < length (channels d)"
    and "unat (current_led_index (parser d)) = k"
    and "k + length ps < unat (current_led_count (parser d))"
    and "unat (current_led_count (parser d)) \<le> length (active_buffer (channels d ! c))"
  shows "state (parser (parse_uart_data d (rgb_bytes ps))) = STATE_READ_RGB_DATA
    \<and> \<not> rebooted (parse_uart_data d (rgb_bytes ps))
    \<and> led_count (channels (parse_uart_data d (rgb_bytes ps)) ! c) = led_count (channels d ! c)
    \<and> take (k + length ps) (active_buffer (channels (parse_uart_data d (rgb_bytes ps)) ! c))
        = take k (active_buffer (channels d ! c))
          @ map (\<lambda>(r, g, b). rgb_to_grb (gamma_lut d) r g b) ps
    \<and> pixels (stats (parse_uart_data d (rgb_bytes ps))) = pixels (stats d) + of_nat (length ps)"
  using assms
proof (induction ps arbitrary: d k)
  case Nil
  then show ?case by simp
next
  case (Cons p ps)
  obtain r g b where p: "p = (r, g, b)" by (cases p)
  let ?ch = "channels d ! c"
  let ?px = "rgb_to_grb (gamma_lut d) r g b"
  define d1 where "d1 = parse_uart_data d [r, g, b]"
  have more: "unat (current_led_index (parser d)) + 1 < unat (current_led_count (parser d))"
    using Cons.prems by simp
  note step = pixel_step [OF Cons.prems(1,2,3) more, of r g b, folded d1_def]
  have idx: "unat (current_led_index (parser d) + 1) = Suc k"
    using Cons.prems(6,7) unsigned_less [of "current_led_count (parser d)", where 'a = nat]
    by (simp add: unat_word_ariths)
  have ab: "active_buffer (channels d1 ! c) = (active_buffer ?ch)[k := ?px]"
    using Cons.prems(4,5,6)
    by (simp add: step set_active_buffer_def active_buffer_def)
  have lc: "led_count (channels d1 ! c) = led_count ?ch"
    using Cons.prems(4,5) by (simp add: step set_active_buffer_def)
  have ih: "state (parser (parse_uart_data d1 (rgb_bytes ps))) = STATE_READ_RGB_DATA
    \<and> \<not> rebooted (parse_uart_data d1 (rgb_bytes ps))
    \<and> led_count (channels (parse_uart_data d1 (rgb_bytes ps)) ! c) = led_count (channels d1 ! c)
    \<and> take (Suc k + length ps) (active_buffer (channels (parse_uart_data d1 (rgb_bytes ps)) ! c))
        = take (Suc k) (active_buffer (channels d1 ! c))
          @ map (\<lambda>(r, g, b). rgb_to_grb (gamma_lut d1) r g b) ps
    \<and> pixels (stats (parse_uart_data d1 (rgb_bytes ps))) = pixels (stats d1) + of_nat (length ps)"
  proof (rule Cons.IH)
    show "state (parser d1) = STATE_READ_RGB_DATA" using Cons.prems(1) by (simp add: step)
    show "\<not> rebooted d1" using Cons.prems(2) by (simp add: step)
    show "rgb_byte_index (parser d1) = 0" by (simp add: step)
    show "unat (current_channel (parser d1)) = c" using Cons.prems(4) by (simp add: step)
    show "c < length (channels d1)" using Cons.prems(5) by (simp add: step)
    show "unat (current_led_index (parser d1)) = Suc k" using idx by (simp add: step)
    show "Suc k + length ps < unat (current_led_count (parser d1))"
      using Cons.prems(7) by (simp add: step)
    show "unat (current_led_count (parser d1)) \<le> length (active_buffer (channels d1 ! c))"
      using Cons.prems(8) by (simp add: ab) (simp add: step)
  qed
  have "rgb_bytes (p # ps) = [r, g, b] @ rgb_bytes ps" by (simp add: p)
  then have split: "parse_uart_data d (rgb_bytes (p # ps)) = parse_uart_data d1 (rgb_bytes ps)"
    unfolding d1_def by (simp only: parse_append)
  have klen: "k < length (active_buffer ?ch)" using Cons.prems(7,8) by simp
  have tk: "take (Suc k) ((active_buffer ?ch)[k := ?px]) = take k (active_buffer ?ch) @ [?px]"
    using klen by (simp add: take_Suc_conv_app_nth)
  have lut: "gamma_lut d1 = gamma_lut d" by (simp add: step)
  have px: "pixels (stats d1) = pixels (stats d) + 1" by (simp add: step)
  show ?case
    using ih unfolding split ab lc tk lut px
    by (simp add: p add.assoc)
qed


text \<open>
  C9: a valid update header (command \<open>0xFF\<close> or \<open>0xFE\<close>, channel below 8, count from 1
  to 200) received in \<open>STATE_WAIT_COMMAND\<close> sets the channel's \<open>led_count\<close> to the
  count as soon as the count-high byte is read, with no pixel received yet; and when
  only part of the RGB payload follows, the parser still waits in
  \<open>STATE_READ_RGB_DATA\<close> while \<open>led_count\<close> is the new count and the leading pixels
  of the active buffer are the gamma-corrected pixels received so far.
\<close>

theorem header_sets_led_count:
  fixes cmd ch lo hi :: u8
  assumes "state (parser d) = STATE_WAIT_COMMAND" and "\<not> rebooted d" and "device_wf d"
    and "cmd = CMD_UPDATE_AND_FLUSH \<or> cmd = CMD_UPDATE_ONLY"
    and "unat ch < NUM_CHANNELS"
    and "0 < unat lo + 256 * unat hi" and "unat lo + 256 * unat hi \<le> MAX_LEDS_PER_CHANNEL"
    and "length ps < unat lo + 256 * unat hi"
  shows "led_count (channels (parse_uart_data d [cmd, ch, lo, hi]) ! unat ch)
        = of_nat (unat lo + 256 * unat hi)
    \<and> state (parser (parse_uart_data d [cmd, ch, lo, hi])) = STATE_READ_RGB_DATA
    \<and> pixels (stats (parse_uart_data d [cmd, ch, lo, hi])) = pixels (stats d)
    \<and> state (parser (parse_uart_data d ([cmd, ch, lo, hi] @ rgb_bytes ps))) = STATE_READ_RGB_DATA
    \<and> led_count (channels (parse_uart_data d ([cmd, ch, lo, hi] @ rgb_bytes ps)) ! unat ch)
        = of_nat (unat lo + 256 * unat hi)
    \<and> take (length ps)
          (active_buffer (channels (parse_uart_data d ([cmd, ch, lo, hi] @ rgb_bytes ps)) ! unat ch))
        = map (\<lambda>(r, g, b). rgb_to_grb (gamma_lut d) r g b) ps"
proof -
  define d1 where "d1 = parse_uart_data d [cmd, ch, lo, hi]"
  note hd = update_header [OF assms(1,2,4,5,6,7), folded d1_def]
  have len: "length (channels d) = NUM_CHANNELS" using assms(3) by (simp add: device_wf_def)
  have c: "unat ch < length (channels d)" using assms(5) len by simp
  have wf: "channel_wf (channels d ! unat ch)" by (rule device_wf_nth [OF assms(3,5)])
  have le: "unat lo + 256 * unat hi \<le> 200"
    using assms(7) by (simp add: MAX_LEDS_PER_CHANNEL_def)
  have cntv: "unat (of_nat (unat lo + 256 * unat hi) :: u16) = unat lo + 256 * unat hi"
    by (simp only: count_word(1) [OF le, symmetric] count_word(2) [OF le])
  have ab: "active_buffer (channels d1 ! unat ch) = active_buffer (channels d ! unat ch)"
    using c by (simp add: hd active_buffer_def)
  have p: "state (parser (parse_uart_data d1 (rgb_bytes ps))) = STATE_READ_RGB_DATA
    \<and> \<not> rebooted (parse_uart_data d1 (rgb_bytes ps))
    \<and> led_count (channels (parse_uart_data d1 (rgb_bytes ps)) ! unat ch)
        = led_count (channels d1 ! unat ch)
    \<and> take (0 + length ps) (active_buffer (channels (parse_uart_data d1 (rgb_bytes ps)) ! unat ch))
        = take 0 (active_buffer (channels d1 ! unat ch))
          @ map (\<lambda>(r, g, b). rgb_to_grb (gamma_lut d1) r g b) ps
    \<and> pixels (stats (parse_uart_data d1 (rgb_bytes ps))) = pixels (stats d1) + of_nat (length ps)"
  proof (rule payload_partial)
    show "state (parser d1) = STATE_READ_RGB_DATA" by (simp add: hd)
    show "\<not> rebooted d1" using assms(2) by (simp add: hd)
    show "rgb_byte_index (parser d1) = 0" by (simp add: hd)
    show "unat (current_channel (parser d1)) = unat ch" by (simp add: hd)
    show "unat ch < length (channels d1)" using c by (simp add: hd)
    show "unat (current_led_index (parser d1)) = 0" by (simp add: hd)
    show "0 + length ps < unat (current_led_count (parser d1))"
      using assms(8) cntv by (simp add: hd)
    show "unat (current_led_count (parser d1)) \<le> length (active_buffer (channels d1 ! unat ch))"
      using assms(7) cntv active_buffer_length [OF wf] unfolding ab by (simp add: hd)
  qed
  have lc: "led_count (channels d1 ! unat ch) = of_nat (unat lo + 256 * unat hi)"
    using c by (simp add: hd)
  have lut: "gamma_lut d1 = gamma_lut d" by (simp add: hd)
  have s1: "state (parser d1) = STATE_READ_RGB_DATA" by (simp add: hd)
  have px: "pixels (stats d1) = pixels (stats d)" by (simp add: hd)
  show ?thesis
    using p lc s1 px unfolding parse_append d1_def [symmetric] lut by simp
qed

theorem header_sets_led_count_witness:
  "state (parser (device_boot gamma_table_identity)) = STATE_WAIT_COMMAND
   \<and> \<not> rebooted (device_boot gamma_table_identity)
   \<and> device_wf (device_boot gamma_table_identity)
   \<and> (CMD_UPDATE_ONLY = CMD_UPDATE_AND_FLUSH \<or> CMD_UPDATE_ONLY = CMD_UPDATE_ONLY)
   \<and> unat (3 :: u8) < NUM_CHANNELS
   \<and> 0 < unat (2 :: u8) + 256 * unat (0 :: u8)
   \<and> unat (2 :: u8) + 256 * unat (0 :: u8) \<le> MAX_LEDS_PER_CHANNEL
   \<and> length [(7 :: u8, 8 :: u8, 9 :: u8)] < unat (2 :: u8) + 256 * unat (0 :: u8)
   \<and> led_count (channels (parse_uart_data (device_boot gamma_table_identity)
         ([CMD_UPDATE_ONLY, 3, 2, 0] @ rgb_bytes [(7, 8, 9)])) ! unat (3 :: u8)) = 2
   \<and> state (parser (parse_uart_data (device_boot gamma_table_identity)
         ([CMD_UPDATE_ONLY, 3, 2, 0] @ rgb_bytes [(7, 8, 9)]))) = STATE_READ_RGB_DATA"
proof -
  have h: "state (parser (device_boot gamma_table_identity)) = STATE_WAIT_COMMAND"
    "\<not> rebooted (device_boot gamma_table_identity)"
    "device_wf (device_boot gamma_table_identity)"
    "CMD_UPDATE_ONLY = CMD_UPDATE_AND_FLUSH \<or> CMD_UPDATE_ONLY = CMD_UPDATE_ONLY"
    "unat (3 :: u8) < NUM_CHANNELS"
    "0 < unat (2 :: u8) + 256 * unat (0 :: u8)"
    "unat (2 :: u8) + 256 * unat (0 :: u8) \<le> MAX_LEDS_PER_CHANNEL"
    "length [(7 :: u8, 8 :: u8, 9 :: u8)] < unat (2 :: u8) + 256 * unat (0 :: u8)"
    by (simp_all add: device_wf_boot NUM_CHANNELS_def MAX_LEDS_PER_CHANNEL_def)
      (simp_all add: device_boot_def parser_init_def)
  from header_sets_led_count [OF h] h show ?thesis by simp
qed

section \<open>Invalid channel and parser recovery\<close>

lemma unat_ucast_u8_u32: "unat (ucast (x :: u8) :: u32) = unat x"
proof -
  have "unat x < 256" using unsigned_less [of x] by simp
  then show ?thesis by (simp add: unsigned_ucast_eq take_bit_nat_eq_self)
qed

lemma brightness_le: "unat (calculate_brightness_units p) \<le> 765"
proof -
  have b: "unat (x :: u8) \<le> 255" for x
    using unsigned_less [of x, where 'a = nat] by simp
  have "unat (calculate_brightness_units p) = unat (px_r p) + unat (px_g p) + unat (px_b p)"
    using b [of "px_r p"] b [of "px_g p"] b [of "px_b p"]
    by (simp add: calculate_brightness_units_def unat_word_ariths unat_ucast_u8_u32)
  then show ?thesis
    using b [of "px_r p"] b [of "px_g p"] b [of "px_b p"] by simp
qed

lemma brightness_below_threshold:
  "\<not> of_nat CURRENT_LIMIT_THRESHOLD < calculate_brightness_units p"
  using brightness_le [of p]
  by (simp add: word_less_nat_alt CURRENT_LIMIT_THRESHOLD_def)

lemma limit_single_led:
  assumes "led_count ch = 1"
  shows "apply_current_limiting ch = ch"
proof (cases "active_buffer ch")
  case Nil
  then show ?thesis
    by (simp add: apply_current_limiting_def total_brightness_def assms CURRENT_LIMIT_THRESHOLD_def
        word_less_nat_alt)
next
  case (Cons p ps)
  then show ?thesis
    using brightness_below_threshold [of p]
    by (simp add: apply_current_limiting_def total_brightness_def assms)
qed

lemma pixel_final:
  assumes st: "state (parser d) = STATE_READ_RGB_DATA" and nr: "\<not> rebooted d"
    and bi: "rgb_byte_index (parser d) = 0"
    and last: "current_led_count (parser d) \<le> current_led_index (parser d) + 1"
    and c: "unat (current_channel (parser d)) = c" "c < length (channels d)"
  shows "parse_uart_data d [r, g, b] =
    set_state STATE_WAIT_COMMAND
      ((if auto_flush (parser d) then ws2812_channel_update c else id)
        (d\<lparr>parser := (parser d)\<lparr>current_r := r, current_g := g, current_b := b,
             current_led_index := current_led_index (parser d) + 1, rgb_byte_index := 0\<rparr>,
           stats := (stats d)\<lparr>pixels := pixels (stats d) + 1\<rparr>,
           channels := (channels d)[c :=
             apply_current_limiting (set_active_buffer
               ((active_buffer (channels d ! c))
                  [unat (current_led_index (parser d)) := rgb_to_grb (gamma_lut d) r g b])
               (channels d ! c))]\<rparr>))"
  using st nr bi last c
  by (simp add: parse_byte_def read_rgb_data_def store_pixel_def Let_def)

lemma single_pixel_update:
  assumes st: "state (parser d) = STATE_WAIT_COMMAND" and nr: "\<not> rebooted d"
    and wf: "device_wf d"
  shows "state (parser (parse_uart_data d [0xFF, 0, 1, 0, r, g, b])) = STATE_WAIT_COMMAND
    \<and> errors (stats (parse_uart_data d [0xFF, 0, 1, 0, r, g, b])) = errors (stats d)
    \<and> flushes (stats (parse_uart_data d [0xFF, 0, 1, 0, r, g, b])) = flushes (stats d) + 1
    \<and> pixels (stats (parse_uart_data d [0xFF, 0, 1, 0, r, g, b])) = pixels (stats d) + 1
    \<and> led_count (channels (parse_uart_data d [0xFF, 0, 1, 0, r, g, b]) ! 0) = 1
    \<and> output_buffer (channels (parse_uart_data d [0xFF, 0, 1, 0, r, g, b]) ! 0) ! 0
        = rgb_to_grb (gamma_lut d) r g b
    \<and> dma_frame (channels (parse_uart_data d [0xFF, 0, 1, 0, r, g, b]) ! 0)
        = [rgb_to_grb (gamma_lut d) r g b]
    \<and> dma_in_progress (channels (parse_uart_data d [0xFF, 0, 1, 0, r, g, b]) ! 0)"
proof -
  define d1 where "d1 = parse_uart_data d [CMD_UPDATE_AND_FLUSH, 0, 1, 0]"
  have hd0: "parse_uart_data d [CMD_UPDATE_AND_FLUSH, 0, 1, 0] = d\<lparr>parser := (parser d)\<lparr>state := STATE_READ_RGB_DATA, current_command := CMD_UPDATE_AND_FLUSH,
         current_channel := 0, current_led_count := of_nat (unat (1::u8) + 256 * unat (0::u8)),
         current_led_index := 0, rgb_byte_index := 0,
         auto_flush := (CMD_UPDATE_AND_FLUSH = CMD_UPDATE_AND_FLUSH)\<rparr>,
       channels := (channels d)[unat (0::u8) :=
         (channels d ! unat (0::u8))\<lparr>led_count := of_nat (unat (1::u8) + 256 * unat (0::u8))\<rparr>],
       system_mode := MODE_NORMAL,
       stats := (stats d)\<lparr>commands := commands (stats d) + 1\<rparr>\<rparr>"
    by (rule update_header [OF st nr]) (simp_all add: NUM_CHANNELS_def MAX_LEDS_PER_CHANNEL_def)
  note hd = hd0 [folded d1_def, simplified]
  have len: "length (channels d) = 8" using wf by (simp add: device_wf_def NUM_CHANNELS_def)
  have cw: "channel_wf (channels d ! 0)"
    by (rule device_wf_nth [OF wf]) (simp add: NUM_CHANNELS_def)
  have bl: "length (active_buffer (channels d ! 0)) = 200"
    using active_buffer_length [OF cw] by (simp add: MAX_LEDS_PER_CHANNEL_def)
  define d2 where "d2 = parse_uart_data d1 [r, g, b]"
  have fin0: "parse_uart_data d1 [r, g, b] =
    set_state STATE_WAIT_COMMAND
      ((if auto_flush (parser d1) then ws2812_channel_update 0 else id)
        (d1\<lparr>parser := (parser d1)\<lparr>current_r := r, current_g := g, current_b := b,
             current_led_index := current_led_index (parser d1) + 1, rgb_byte_index := 0\<rparr>,
           stats := (stats d1)\<lparr>pixels := pixels (stats d1) + 1\<rparr>,
           channels := (channels d1)[0 :=
             apply_current_limiting (set_active_buffer
               ((active_buffer (channels d1 ! 0))
                  [unat (current_led_index (parser d1)) := rgb_to_grb (gamma_lut d1) r g b])
               (channels d1 ! 0))]\<rparr>))"
    by (rule pixel_final) (use nr len in \<open>simp_all add: hd\<close>)
  have lim: "apply_current_limiting (set_active_buffer
               ((active_buffer (channels d1 ! 0))
                  [unat (current_led_index (parser d1)) := rgb_to_grb (gamma_lut d1) r g b])
               (channels d1 ! 0)) = set_active_buffer
               ((active_buffer (channels d1 ! 0))
                  [unat (current_led_index (parser d1)) := rgb_to_grb (gamma_lut d1) r g b])
               (channels d1 ! 0)"
    by (rule limit_single_led) (use len in \<open>simp add: hd set_active_buffer_def\<close>)
  have split: "parse_uart_data d [0xFF, 0, 1, 0, r, g, b] = d2"
    using parse_append [of d "[CMD_UPDATE_AND_FLUSH, 0, 1, 0]" "[r, g, b]"]
    unfolding d2_def d1_def by (simp add: CMD_UPDATE_AND_FLUSH_def)
  have d2: "d2 = set_state STATE_WAIT_COMMAND (ws2812_channel_update 0
        (d1\<lparr>parser := (parser d1)\<lparr>current_r := r, current_g := g, current_b := b,
             current_led_index := current_led_index (parser d1) + 1, rgb_byte_index := 0\<rparr>,
           stats := (stats d1)\<lparr>pixels := pixels (stats d1) + 1\<rparr>,
           channels := (channels d1)[0 := set_active_buffer
               ((active_buffer (channels d1 ! 0))
                  [unat (current_led_index (parser d1)) := rgb_to_grb (gamma_lut d1) r g b])
               (channels d1 ! 0)]\<rparr>))"
    unfolding d2_def fin0 lim by (simp add: hd)
  show ?thesis
    unfolding split d2
    using len bl
    by (simp add: hd set_state_def ws2812_channel_update_def Let_def set_active_buffer_def
        active_buffer_def output_buffer_def take_Suc_conv_app_nth split: if_splits)
qed


lemma invalid_channel:
  assumes "state (parser d) = STATE_WAIT_COMMAND" and "\<not> rebooted d"
  shows "parse_uart_data d [0xFE, 9] =
    d\<lparr>parser := (parser d)\<lparr>current_command := 0xFE, auto_flush := False,
                              state := STATE_WAIT_COMMAND\<rparr>,
      stats := (stats d)\<lparr>commands := commands (stats d) + 1, errors := errors (stats d) + 1\<rparr>\<rparr>"
  using assms
  by (simp add: parse_byte_def wait_command_def Let_def cmd_defs NUM_CHANNELS_def
      set_state_def count_error_def)

lemma rejected_tail:
  assumes "state (parser d) = STATE_WAIT_COMMAND" and "\<not> rebooted d"
  shows "errors (stats (parse_uart_data d [1, 0, 0xFF, 0, 0])) = errors (stats d)
    \<and> state (parser (parse_uart_data d [1, 0, 0xFF, 0, 0])) = STATE_READ_COUNT_HIGH"
  using assms
  by (simp add: parse_byte_def wait_command_def Let_def cmd_defs NUM_CHANNELS_def
      set_state_def count_error_def)

text \<open>
  C2 (as amended): in \<open>STATE_WAIT_COMMAND\<close>, the bytes \<open>FE 09\<close> (update for the invalid
  channel 9) are dropped at the channel byte: the error counter goes up by exactly 1,
  the parser is back in \<open>STATE_WAIT_COMMAND\<close> and no channel changes. The rest of the
  rejected command is not skipped: after \<open>FE 09 01 00 FF 00 00\<close> the error counter is
  still one higher but the parser is in \<open>STATE_READ_COUNT_HIGH\<close>. The update
  \<open>FF 00 01 00 10 20 30\<close> read from \<open>STATE_WAIT_COMMAND\<close> (here right after \<open>FE 09\<close>)
  is a valid Update+Flush: it stores the gamma-corrected pixel into channel 0, LED 0,
  and flushes that channel, with no further error.
\<close>

theorem invalid_channel_recovery:
  assumes "state (parser d) = STATE_WAIT_COMMAND" and "\<not> rebooted d" and "device_wf d"
  shows "errors (stats (parse_uart_data d [0xFE, 9])) = errors (stats d) + 1
    \<and> state (parser (parse_uart_data d [0xFE, 9])) = STATE_WAIT_COMMAND
    \<and> channels (parse_uart_data d [0xFE, 9]) = channels d
    \<and> errors (stats (parse_uart_data d ([0xFE, 9] @ [1, 0, 0xFF, 0, 0]))) = errors (stats d) + 1
    \<and> state (parser (parse_uart_data d ([0xFE, 9] @ [1, 0, 0xFF, 0, 0]))) = STATE_READ_COUNT_HIGH
    \<and> errors (stats (parse_uart_data d ([0xFE, 9] @ [0xFF, 0, 1, 0, 0x10, 0x20, 0x30])))
        = errors (stats d) + 1
    \<and> state (parser (parse_uart_data d ([0xFE, 9] @ [0xFF, 0, 1, 0, 0x10, 0x20, 0x30])))
        = STATE_WAIT_COMMAND
    \<and> output_buffer (channels (parse_uart_data d ([0xFE, 9] @ [0xFF, 0, 1, 0, 0x10, 0x20, 0x30])) ! 0) ! 0
        = rgb_to_grb (gamma_lut d) 0x10 0x20 0x30
    \<and> dma_frame (channels (parse_uart_data d ([0xFE, 9] @ [0xFF, 0, 1, 0, 0x10, 0x20, 0x30])) ! 0)
        = [rgb_to_grb (gamma_lut d) 0x10 0x20 0x30]
    \<and> flushes (stats (parse_uart_data d ([0xFE, 9] @ [0xFF, 0, 1, 0, 0x10, 0x20, 0x30])))
        = flushes (stats d) + 1"
proof -
  define d1 where "d1 = parse_uart_data d [0xFE, 9]"
  note ic = invalid_channel [OF assms(1,2), folded d1_def]
  have st1: "state (parser d1) = STATE_WAIT_COMMAND" and nr1: "\<not> rebooted d1"
    using assms(2) by (simp_all add: ic)
  have wf1: "device_wf d1" using assms(3) by (simp add: ic device_wf_def)
  have e1: "errors (stats d1) = errors (stats d) + 1" by (simp add: ic)
  have c1: "channels d1 = channels d" by (simp add: ic)
  have f1: "flushes (stats d1) = flushes (stats d)" by (simp add: ic)
  have l1: "gamma_lut d1 = gamma_lut d" by (simp add: ic)
  note tail = rejected_tail [OF st1 nr1]
  note upd = single_pixel_update [OF st1 nr1 wf1, of "0x10" "0x20" "0x30"]
  show ?thesis
    unfolding parse_append d1_def [symmetric]
    using st1 e1 c1 tail upd by (simp add: f1 l1)
qed

theorem invalid_channel_recovery_witness:
  "state (parser (device_boot gamma_table_identity)) = STATE_WAIT_COMMAND
   \<and> \<not> rebooted (device_boot gamma_table_identity)
   \<and> device_wf (device_boot gamma_table_identity)
   \<and> errors (stats (parse_uart_data (device_boot gamma_table_identity) [0xFE, 9])) = 1
   \<and> flushes (stats (parse_uart_data (device_boot gamma_table_identity)
        ([0xFE, 9] @ [0xFF, 0, 1, 0, 0x10, 0x20, 0x30]))) = 1"
proof -
  have h: "state (parser (device_boot gamma_table_identity)) = STATE_WAIT_COMMAND"
    "\<not> rebooted (device_boot gamma_table_identity)"
    "device_wf (device_boot gamma_table_identity)"
    by (simp_all add: device_wf_boot) (simp_all add: device_boot_def parser_init_def)
  have z: "errors (stats (device_boot gamma_table_identity)) = 0"
    "flushes (stats (device_boot gamma_table_identity)) = 0"
    by (simp_all add: device_boot_def)
  from invalid_channel_recovery [OF h] h z show ?thesis by simp
qed

text \<open>
  The claim as stated fails: on a freshly booted device, after the whole rejected
  command \<open>FE 09 01 00 FF 00 00\<close> the error counter is 1 but the parser is inside a
  new update header; the following \<open>FF 00 01 00 10 20 30\<close> is then rejected as an
  invalid count (second error), no pixel is stored and nothing is flushed.
\<close>

theorem s5_update_not_applied:
  "errors (stats s5_after_rejected) = 1
   \<and> state (parser s5_after_rejected) = STATE_READ_COUNT_HIGH
   \<and> errors (stats s5_after_update) = 2
   \<and> pixels (stats s5_after_update) = 0
   \<and> flushes (stats s5_after_update) = 0
   \<and> led_count (channels s5_after_update ! 0) = 0
   \<and> dma_frame (channels s5_after_update ! 0) = []"
  by (simp add: s5_after_update_def s5_after_rejected_def device_boot_def parser_init_def
      parse_byte_def wait_command_def read_count_high_def Let_def cmd_defs NUM_CHANNELS_def
      MAX_LEDS_PER_CHANNEL_def set_state_def count_error_def ws2812_channel_init_def)

section \<open>Rounding to nearest: monotone, exact on representable values\<close>

lemma rne_of_int [simp]: "rne (of_int n :: 'a::floor_ceiling) = n"
  by (simp add: rne_def)

lemma rne_cases:
  fixes x :: "'a::floor_ceiling"
  shows "rne x = \<lfloor>x\<rfloor> \<and> x - of_int \<lfloor>x\<rfloor> \<le> 1 / 2 \<or> rne x = \<lfloor>x\<rfloor> + 1 \<and> 1 / 2 \<le> x - of_int \<lfloor>x\<rfloor>"
  by (auto simp add: rne_def Let_def)

lemma rne_lower: "\<lfloor>x\<rfloor> \<le> rne (x :: 'a::floor_ceiling)"
  using rne_cases [of x] by auto

lemma rne_upper: "rne (x :: 'a::floor_ceiling) \<le> \<lfloor>x\<rfloor> + 1"
  using rne_cases [of x] by auto

lemma rne_mono:
  fixes x y :: "'a::floor_ceiling"
  assumes "x \<le> y"
  shows "rne x \<le> rne y"
proof (cases "\<lfloor>x\<rfloor> = \<lfloor>y\<rfloor>")
  case True
  then have d: "x - of_int \<lfloor>x\<rfloor> \<le> y - of_int \<lfloor>y\<rfloor>" using assms by simp
  show ?thesis
    using d True by (auto simp add: rne_def Let_def)
next
  case False
  have "\<lfloor>x\<rfloor> \<le> \<lfloor>y\<rfloor>" using assms by (rule floor_mono)
  with False have "\<lfloor>x\<rfloor> + 1 \<le> \<lfloor>y\<rfloor>" by simp
  then show ?thesis using rne_upper [of x] rne_lower [of y] by linarith
qed

lemma rne_nonneg: "0 \<le> (x :: 'a::floor_ceiling) \<Longrightarrow> 0 \<le> rne x"
  using rne_mono [of 0 x] rne_of_int [of 0, where 'a = 'a] by simp

lemma rne_le_of_int: "(x :: 'a::floor_ceiling) \<le> of_int n \<Longrightarrow> rne x \<le> n"
  using rne_mono [of x "of_int n"] by simp

lemma rne_ge_of_int: "of_int n \<le> (x :: 'a::floor_ceiling) \<Longrightarrow> n \<le> rne x"
  using rne_mono [of "of_int n" x] by simp

lemma rne_eqI:
  fixes x :: "'a::floor_ceiling"
  assumes "of_int n - 1 / 2 < x" and "x < of_int n + 1 / 2"
  shows "rne x = n"
proof -
  have "\<lfloor>x\<rfloor> = n \<or> \<lfloor>x\<rfloor> = n - 1"
  proof -
    have "of_int (n - 1) \<le> x" using assms(1) by simp
    then have "n - 1 \<le> \<lfloor>x\<rfloor>" by (simp add: le_floor_iff)
    moreover have "x < of_int (n + 1)" using assms(2) by simp
    then have "\<lfloor>x\<rfloor> < n + 1" by (simp only: floor_less_iff)
    ultimately show ?thesis by linarith
  qed
  then show ?thesis
  proof
    assume f: "\<lfloor>x\<rfloor> = n"
    then have "x - of_int \<lfloor>x\<rfloor> < 1 / 2" using assms(2) by simp
    then show ?thesis by (simp add: rne_def Let_def f)
  next
    assume f: "\<lfloor>x\<rfloor> = n - 1"
    then have "1 / 2 < x - of_int \<lfloor>x\<rfloor>" using assms(1) by simp
    then show ?thesis by (simp add: rne_def Let_def f)
  qed
qed

lemma ilog2_bounds:
  fixes x :: "'a::floor_ceiling"
  assumes "0 < x"
  shows "2 powi ilog2 x \<le> x" and "x < 2 powi (ilog2 x + 1)"
proof -
  have both: "2 powi ilog2 x \<le> x \<and> x < 2 powi (ilog2 x + 1)"
  proof (cases "1 \<le> x")
    case True
    define n where "n = \<lfloor>x\<rfloor>"
    have n: "0 < n" using True by (simp add: n_def)
    have bl: "1 \<le> bitlen n" using n by (simp add: bitlen_alt_def)
    from bitlen_bounds [OF n]
    have lo: "2 ^ nat (bitlen n - 1) \<le> n" and hi: "n < 2 ^ nat (bitlen n)" by simp_all
    have e: "ilog2 x = bitlen n - 1" using True by (simp add: ilog2_def n_def)
    have "(2 :: 'a) powi (bitlen n - 1) = of_int (2 ^ nat (bitlen n - 1))"
      using bl by (simp add: power_int_nonneg_exp)
    also have "\<dots> \<le> of_int n" using lo by (simp only: of_int_le_iff)
    also have "\<dots> \<le> x" by (simp add: n_def)
    finally have 1: "2 powi ilog2 x \<le> x" by (simp add: e)
    have "n + 1 \<le> 2 ^ nat (bitlen n)" using hi by simp
    then have "(of_int (n + 1) :: 'a) \<le> of_int (2 ^ nat (bitlen n))" by (simp only: of_int_le_iff)
    moreover have "x < of_int (n + 1)" using floor_correct [of x] by (simp add: n_def)
    moreover have "(of_int (2 ^ nat (bitlen n)) :: 'a) = 2 powi (bitlen n)"
      using bl by (simp add: power_int_nonneg_exp)
    ultimately have 2: "x < 2 powi (ilog2 x + 1)" by (simp add: e)
    from 1 2 show ?thesis ..
  next
    case False
    then have x1: "x < 1" by simp
    define y where "y = 1 / x"
    have y1: "1 < y" using assms x1 by (simp add: y_def)
    define m where "m = \<lceil>y\<rceil> - 1"
    have m: "0 < m" using y1 by (simp add: m_def less_ceiling_iff)
    have bl: "1 \<le> bitlen m" using m by (simp add: bitlen_alt_def)
    from bitlen_bounds [OF m]
    have lo: "2 ^ nat (bitlen m - 1) \<le> m" and hi: "m < 2 ^ nat (bitlen m)" by simp_all
    have e: "ilog2 x = - bitlen m" using False by (simp add: ilog2_def m_def y_def)
    have my: "of_int m < y" by (simp add: m_def) (metis ceiling_correct)
    have ym: "y \<le> of_int (m + 1)" by (simp add: m_def)
    have "m + 1 \<le> 2 ^ nat (bitlen m)" using hi by simp
    then have "(of_int (m + 1) :: 'a) \<le> of_int (2 ^ nat (bitlen m))" by (simp only: of_int_le_iff)
    also have "\<dots> = 2 powi (bitlen m)" using bl by (simp add: power_int_nonneg_exp)
    finally have yle: "y \<le> 2 powi (bitlen m)" using ym by simp
    have "(2 :: 'a) powi (bitlen m - 1) = of_int (2 ^ nat (bitlen m - 1))"
      using bl by (simp add: power_int_nonneg_exp)
    also have "\<dots> \<le> of_int m" using lo by (simp only: of_int_le_iff)
    finally have ylt: "2 powi (bitlen m - 1) < y" using my by simp
    have p: "0 < (2 :: 'a) powi k" for k by simp
    have "2 powi (- bitlen m) = 1 / (2 :: 'a) powi (bitlen m)" by (simp add: power_int_minus_divide)
    also have "\<dots> \<le> 1 / y" using yle y1 by (intro divide_left_mono) simp_all
    finally have 1: "2 powi ilog2 x \<le> x" using assms by (simp add: e y_def)
    have "1 / y < 1 / (2 :: 'a) powi (bitlen m - 1)"
      using ylt p [of "bitlen m - 1"] y1 by (intro divide_strict_left_mono) simp_all
    also have "\<dots> = 2 powi (- (bitlen m - 1))" by (simp only: power_int_minus_divide)
    finally have 2: "x < 2 powi (ilog2 x + 1)" using assms by (simp add: e y_def)
    from 1 2 show ?thesis ..
  qed
  from both show "2 powi ilog2 x \<le> x" and "x < 2 powi (ilog2 x + 1)" by simp_all
qed

lemma pow2_less_imp_less:
  assumes "(2 :: 'a::floor_ceiling) powi a < 2 powi b"
  shows "a < b"
proof (rule ccontr)
  assume "\<not> a < b"
  then have "b \<le> a" by simp
  then have "(2 :: 'a) powi b \<le> 2 powi a" by (intro power_int_increasing) simp_all
  with assms show False by simp
qed

lemma ilog2_unique:
  fixes x :: "'a::floor_ceiling"
  assumes "2 powi e \<le> x" and "x < 2 powi (e + 1)"
  shows "ilog2 x = e"
proof -
  have x: "0 < x" using assms(1) by (rule less_le_trans [rotated]) simp
  note b = ilog2_bounds [OF x]
  have "(2 :: 'a) powi e < 2 powi (ilog2 x + 1)" using assms(1) b(2) by (rule le_less_trans)
  then have 1: "e < ilog2 x + 1" by (rule pow2_less_imp_less)
  have "(2 :: 'a) powi ilog2 x < 2 powi (e + 1)" using b(1) assms(2) by (rule le_less_trans)
  then have 2: "ilog2 x < e + 1" by (rule pow2_less_imp_less)
  from 1 2 show ?thesis by simp
qed


lemma ilog2_mono:
  fixes x y :: "'a::floor_ceiling"
  assumes "0 < x" and "x \<le> y"
  shows "ilog2 x \<le> ilog2 y"
proof -
  have y: "0 < y" using assms by simp
  have "(2 :: 'a) powi ilog2 x \<le> x" by (rule ilog2_bounds(1) [OF assms(1)])
  also have "x \<le> y" by fact
  also have "y < 2 powi (ilog2 y + 1)" by (rule ilog2_bounds(2) [OF y])
  finally have "ilog2 x < ilog2 y + 1" by (rule pow2_less_imp_less)
  then show ?thesis by simp
qed

lemma fl_round_zero [simp]: "fl_round p umin 0 = 0"
  by (simp add: fl_round_def)

lemma fl_round_pos:
  fixes x :: "'a::floor_ceiling"
  assumes "0 < x"
  shows "fl_round p umin x =
    of_int (rne (x / 2 powi max (ilog2 x - (int p - 1)) umin)) * 2 powi max (ilog2 x - (int p - 1)) umin"
  using assms by (simp add: fl_round_def Let_def)

lemma fl_round_neg: "fl_round p umin (- x) = - fl_round p umin (x :: 'a::floor_ceiling)"
  by (simp add: fl_round_def Let_def sgn_minus)

lemma fl_round_pos_eqI:
  fixes x :: "'a::floor_ceiling"
  assumes "2 powi e \<le> x" and "x < 2 powi (e + 1)" and "u = max (e - (int p - 1)) umin"
  shows "fl_round p umin x = of_int (rne (x / 2 powi u)) * 2 powi u"
proof -
  have x: "0 < x" using assms(1) by (rule less_le_trans [rotated]) simp
  show ?thesis
    by (simp add: fl_round_pos [OF x] ilog2_unique [OF assms(1,2)] assms(3))
qed

lemma fl_round_nonneg:
  fixes x :: "'a::floor_ceiling"
  assumes "0 \<le> x"
  shows "0 \<le> fl_round p umin x"
proof (cases "x = 0")
  case True
  then show ?thesis by simp
next
  case False
  then have x: "0 < x" using assms by simp
  have "0 \<le> rne (x / 2 powi max (ilog2 x - (int p - 1)) umin)"
    by (rule rne_nonneg) (use x in simp)
  then show ?thesis by (simp add: fl_round_pos [OF x])
qed

lemma pow2_split:
  assumes "u \<le> k"
  shows "(2 :: 'a::floor_ceiling) powi k = of_int (2 ^ nat (k - u)) * 2 powi u"
proof -
  have "(2 :: 'a) powi k = 2 powi (k - u) * 2 powi u"
    by (simp add: power_int_add [symmetric])
  also have "(2 :: 'a) powi (k - u) = of_int (2 ^ nat (k - u))"
    using assms by (simp add: power_int_nonneg_exp)
  finally show ?thesis .
qed

lemma scaled_le:
  fixes x :: "'a::floor_ceiling"
  assumes "x \<le> 2 powi k" and "u \<le> k"
  shows "of_int (rne (x / 2 powi u)) * 2 powi u \<le> (2 :: 'a) powi k"
proof -
  have "x / 2 powi u \<le> 2 powi k / 2 powi u"
    using assms(1) by (simp add: divide_right_mono)
  also have "\<dots> = of_int (2 ^ nat (k - u))"
    by (simp add: pow2_split [OF assms(2)])
  finally have "rne (x / 2 powi u) \<le> 2 ^ nat (k - u)" by (rule rne_le_of_int)
  then have "(of_int (rne (x / 2 powi u)) :: 'a) \<le> of_int (2 ^ nat (k - u))"
    by (simp only: of_int_le_iff)
  then have "of_int (rne (x / 2 powi u)) * (2 :: 'a) powi u \<le> of_int (2 ^ nat (k - u)) * 2 powi u"
    by (rule mult_right_mono) simp
  then show ?thesis by (simp only: pow2_split [OF assms(2), symmetric])
qed

lemma scaled_ge:
  fixes x :: "'a::floor_ceiling"
  assumes "2 powi k \<le> x" and "u \<le> k"
  shows "(2 :: 'a) powi k \<le> of_int (rne (x / 2 powi u)) * 2 powi u"
proof -
  have "2 powi k / 2 powi u \<le> x / 2 powi u"
    using assms(1) by (simp add: divide_right_mono)
  moreover have "2 powi k / (2 :: 'a) powi u = of_int (2 ^ nat (k - u))"
    by (simp add: pow2_split [OF assms(2)])
  ultimately have "of_int (2 ^ nat (k - u)) \<le> x / 2 powi u" by simp
  then have "2 ^ nat (k - u) \<le> rne (x / 2 powi u)" by (rule rne_ge_of_int)
  then have "(of_int (2 ^ nat (k - u)) :: 'a) \<le> of_int (rne (x / 2 powi u))"
    by (simp only: of_int_le_iff)
  then have "of_int (2 ^ nat (k - u)) * (2 :: 'a) powi u \<le> of_int (rne (x / 2 powi u)) * 2 powi u"
    by (rule mult_right_mono) simp
  then show ?thesis by (simp only: pow2_split [OF assms(2), symmetric])
qed

lemma fl_round_mono_pos:
  fixes x y :: "'a::floor_ceiling"
  assumes p: "1 \<le> p" and x: "0 < x" and xy: "x \<le> y"
  shows "fl_round p umin x \<le> fl_round p umin y"
proof -
  have y: "0 < y" using x xy by simp
  define ux where "ux = max (ilog2 x - (int p - 1)) umin"
  define uy where "uy = max (ilog2 y - (int p - 1)) umin"
  have fx: "fl_round p umin x = of_int (rne (x / 2 powi ux)) * 2 powi ux"
    by (simp add: fl_round_pos [OF x] ux_def)
  have fy: "fl_round p umin y = of_int (rne (y / 2 powi uy)) * 2 powi uy"
    by (simp add: fl_round_pos [OF y] uy_def)
  have e: "ilog2 x \<le> ilog2 y" by (rule ilog2_mono [OF x xy])
  then have u: "ux \<le> uy" by (simp add: ux_def uy_def)
  show ?thesis
  proof (cases "ux = uy")
    case True
    have "x / 2 powi uy \<le> y / 2 powi uy" using xy by (simp add: divide_right_mono)
    then have "rne (x / 2 powi uy) \<le> rne (y / 2 powi uy)" by (rule rne_mono)
    then have "(of_int (rne (x / 2 powi uy)) :: 'a) \<le> of_int (rne (y / 2 powi uy))"
      by (simp only: of_int_le_iff)
    then have "of_int (rne (x / 2 powi uy)) * (2 :: 'a) powi uy \<le> of_int (rne (y / 2 powi uy)) * 2 powi uy"
      by (rule mult_right_mono) simp
    then show ?thesis by (simp add: fx fy True)
  next
    case False
    with u have lt: "ux < uy" by simp
    have "umin \<le> ux" by (simp add: ux_def)
    with lt have uy: "uy = ilog2 y - (int p - 1)" by (simp add: uy_def max_def split: if_splits)
    have uyk: "uy \<le> ilog2 y" using p by (simp add: uy)
    have "ilog2 x - (int p - 1) \<le> ux" by (simp add: ux_def)
    with lt uy have elt: "ilog2 x + 1 \<le> ilog2 y" by simp
    have "x < 2 powi (ilog2 x + 1)" by (rule ilog2_bounds(2) [OF x])
    also have "(2 :: 'a) powi (ilog2 x + 1) \<le> 2 powi ilog2 y"
      using elt by (intro power_int_increasing) simp_all
    finally have xk: "x \<le> 2 powi ilog2 y" by simp
    have "fl_round p umin x \<le> 2 powi ilog2 y"
      unfolding fx by (rule scaled_le [OF xk]) (use lt uyk in simp)
    also have "(2 :: 'a) powi ilog2 y \<le> fl_round p umin y"
      unfolding fy by (rule scaled_ge [OF ilog2_bounds(1) [OF y] uyk])
    finally show ?thesis .
  qed
qed

lemma fl_round_mono:
  fixes x y :: "'a::floor_ceiling"
  assumes p: "1 \<le> p" and xy: "x \<le> y"
  shows "fl_round p umin x \<le> fl_round p umin y"
proof -
  consider "0 < x" | "x \<le> 0" "0 \<le> y" | "y < 0" by linarith
  then show ?thesis
  proof cases
    case 1
    then show ?thesis by (rule fl_round_mono_pos [OF p _ xy])
  next
    case 2
    have "fl_round p umin x = - fl_round p umin (- x)" by (simp add: fl_round_neg)
    moreover have "0 \<le> fl_round p umin (- x)" by (rule fl_round_nonneg) (use 2 in simp)
    moreover have "0 \<le> fl_round p umin y" by (rule fl_round_nonneg) (use 2 in simp)
    ultimately show ?thesis by simp
  next
    case 3
    have "fl_round p umin (- y) \<le> fl_round p umin (- x)"
      by (rule fl_round_mono_pos [OF p]) (use 3 xy in simp_all)
    then show ?thesis by (simp add: fl_round_neg)
  qed
qed

lemma fl_round_exact_pos:
  fixes x :: "'a::floor_ceiling"
  assumes "x = of_int m * 2 powi k" and "0 < m" and "m < 2 ^ p" and "umin \<le> k"
  shows "fl_round p umin x = x"
proof -
  have x: "0 < x" using assms(1,2) by simp
  define u where "u = max (ilog2 x - (int p - 1)) umin"
  have "(of_int m :: 'a) < of_int (2 ^ p)" using assms(3) by (simp only: of_int_less_iff)
  then have "x < 2 ^ p * 2 powi k" using assms(1) by simp
  also have "\<dots> = 2 powi (int p + k)" by (simp add: power_int_add)
  finally have lt: "x < 2 powi (int p + k)" .
  have "2 powi ilog2 x < (2 :: 'a) powi (int p + k)"
    by (rule le_less_trans [OF ilog2_bounds(1) [OF x] lt])
  then have "ilog2 x < int p + k" by (rule pow2_less_imp_less)
  then have uk: "u \<le> k" using assms(4) by (simp add: u_def)
  have "x / 2 powi u = of_int m * (2 powi k / 2 powi u)" by (simp add: assms(1))
  also have "\<dots> = of_int (m * 2 ^ nat (k - u))" by (simp add: pow2_split [OF uk])
  finally have "rne (x / 2 powi u) = m * 2 ^ nat (k - u)" by (simp only: rne_of_int)
  then have "fl_round p umin x = of_int (m * 2 ^ nat (k - u)) * 2 powi u"
    by (simp add: fl_round_pos [OF x] u_def)
  also have "\<dots> = of_int m * (of_int (2 ^ nat (k - u)) * 2 powi u)" by simp
  also have "\<dots> = x" by (simp only: pow2_split [OF uk, symmetric] assms(1))
  finally show ?thesis .
qed

lemma fl_round_exact:
  fixes x :: "'a::floor_ceiling"
  assumes "x = of_int m * 2 powi k" and "\<bar>m\<bar> < 2 ^ p" and "umin \<le> k"
  shows "fl_round p umin x = x"
proof -
  consider "m = 0" | "0 < m" | "m < 0" by linarith
  then show ?thesis
  proof cases
    case 1
    then show ?thesis by (simp add: assms(1))
  next
    case 2
    then show ?thesis using assms by (intro fl_round_exact_pos [of x m k p umin]) simp_all
  next
    case 3
    have "fl_round p umin (- x) = - x"
      using assms 3 by (intro fl_round_exact_pos [of "- x" "- m" k p umin]) simp_all
    then show ?thesis by (simp add: fl_round_neg)
  qed
qed

lemma fl_round_of_int:
  "\<bar>m\<bar> < 2 ^ p \<Longrightarrow> umin \<le> 0 \<Longrightarrow> fl_round p umin (of_int m :: 'a::floor_ceiling) = of_int m"
  by (rule fl_round_exact [of _ m 0]) simp_all

section \<open>Configuration\<close>

text \<open>What \<open>loadConfig\<close> guarantees of a configuration that it returns.\<close>

lemma invalid_iff: "\<not> invalid v bad \<longleftrightarrow> (\<exists>n. v = Some n \<and> \<not> bad n)"
  by (cases v) simp_all

lemma loadConfig_ranges:
  assumes "loadConfig env = Inr cfg"
  shows "1 \<le> fps cfg \<and> fps cfg \<le> 120"
    and "1 \<le> ledsPerChannel cfg \<and> ledsPerChannel cfg \<le> 200"
    and "1 \<le> numChannels cfg \<and> numChannels cfg \<le> 8"
    and "totalLeds cfg = ledsPerChannel cfg * numChannels cfg"
    and "0 \<le> wsEvictionAge cfg" and "0 < wsIdleTimeout cfg"
proof -
  have v: "\<not> invalid (env_FPS env) (\<lambda>v. v \<le> 0 \<or> 120 < v)"
    "\<not> invalid (env_LEDS_PER_CHANNEL env) (\<lambda>v. v \<le> 0 \<or> 200 < v)"
    "\<not> invalid (env_NUM_CHANNELS env) (\<lambda>v. v \<le> 0 \<or> 8 < v)"
    "\<not> invalid (env_WS_EVICTION_AGE env) (\<lambda>v. v < 0)"
    "\<not> invalid (env_WS_IDLE_TIMEOUT env) (\<lambda>v. v \<le> 0)"
    using assms by (auto simp add: loadConfig_def split: if_splits)
  have c: "fps cfg = nat (the (env_FPS env))"
    "ledsPerChannel cfg = nat (the (env_LEDS_PER_CHANNEL env))"
    "numChannels cfg = nat (the (env_NUM_CHANNELS env))"
    "totalLeds cfg = nat (the (env_LEDS_PER_CHANNEL env)) * nat (the (env_NUM_CHANNELS env))"
    "wsEvictionAge cfg = the (env_WS_EVICTION_AGE env)"
    "wsIdleTimeout cfg = the (env_WS_IDLE_TIMEOUT env)"
    using assms by (auto simp add: loadConfig_def split: if_splits)
  show "1 \<le> fps cfg \<and> fps cfg \<le> 120"
    using v(1) by (auto simp add: invalid_iff c)
  show "1 \<le> ledsPerChannel cfg \<and> ledsPerChannel cfg \<le> 200"
    using v(2) by (auto simp add: invalid_iff c)
  show "1 \<le> numChannels cfg \<and> numChannels cfg \<le> 8"
    using v(3) by (auto simp add: invalid_iff c)
  show "totalLeds cfg = ledsPerChannel cfg * numChannels cfg" by (simp add: c)
  show "0 \<le> wsEvictionAge cfg" using v(4) by (auto simp add: invalid_iff c)
  show "0 < wsIdleTimeout cfg" using v(5) by (auto simp add: invalid_iff c)
qed

lemma loadConfig_default:
  "loadConfig default_environment
     = Inr \<lparr>fps = 30, ledsPerChannel = 200, numChannels = 6, totalLeds = 1200,
            wsListenPort = 8080, wsEvictionAge = 300, wsIdleTimeout = 30\<rparr>"
  by (simp add: loadConfig_def default_environment_def)

lemma loadConfig_rejects:
  "loadConfig (default_environment\<lparr>env_LEDS_PER_CHANNEL := Some 201\<rparr>) = Inl InvalidLedsPerChannel"
  "loadConfig (default_environment\<lparr>env_NUM_CHANNELS := Some 0\<rparr>) = Inl InvalidNumChannels"
  "loadConfig (default_environment\<lparr>env_WS_EVICTION_AGE := None\<rparr>) = Inl InvalidWsEvictionAge"
  "loadConfig (default_environment\<lparr>env_WS_IDLE_TIMEOUT := Some 0\<rparr>) = Inl InvalidWsIdleTimeout"
  by (simp_all add: loadConfig_def default_environment_def)

lemma loadConfig_s3: "loadConfig s3_environment = Inr s3_config"
  by (simp add: loadConfig_def s3_environment_def default_environment_def s3_config_def)

section \<open>Render tick\<close>

lemma f64_of_int:
  assumes "\<bar>m\<bar> < 2 ^ 53"
  shows "f64 (of_int m) = Fin (of_int m)"
proof -
  have e: "fl_round 53 (- 1074) (of_int m :: rat) = of_int m"
    by (rule fl_round_of_int) (use assms in simp_all)
  have "\<bar>of_int m :: rat\<bar> < of_int (2 ^ 53)" using assms by (simp only: of_int_abs [symmetric] of_int_less_iff)
  moreover have "(of_int (2 ^ 53) :: rat) < 2 ^ 1024" by simp
  ultimately have "\<bar>of_int m :: rat\<bar> < 2 ^ 1024" by (rule less_trans)
  then have "\<not> 2 ^ 1024 \<le> (of_int m :: rat)" "\<not> (of_int m :: rat) \<le> - (2 ^ 1024)" by linarith+
  then show ?thesis by (simp only: f64_def e Let_def if_False)
qed

lemma red_bytes: "ToUint8Clamp (f64 255) = 255" "ToUint8Clamp (f64 0) = 0"
  using f64_of_int [of 255] f64_of_int [of 0] by simp_all

subsection \<open>The per-LED loop\<close>

lemma catch_handler_other [simp]: "catch_handler fc ThrownOther = None"
  by (simp add: catch_handler_def)

lemma store_cases:
  "store fb i c = (case c of Num v \<Rightarrow> (fb[i := byte_of v], None) | Unconvertible err \<Rightarrow> (fb, Some err))"
  by (cases c) simp_all

lemma try_block_length [simp]:
  "length (fst (try_block f x y z t params fb ledId)) = length fb"
  by (simp add: try_block_def store_cases split: anim_result.splits component.splits)

lemma try_block_error:
  "snd (try_block f x y z t params fb ledId) = thrown_by (f x y z t params ledId)"
  by (simp add: try_block_def thrown_by_def store_cases split: anim_result.splits component.splits)

lemma render_led_length [simp]:
  "length (fst (render_led coords f params t fc fb ledId)) = length fb"
proof (cases "getCoordinate coords (int ledId)")
  case None
  then show ?thesis by (simp add: render_led_def)
next
  case (Some p)
  obtain x y z where p: "p = (x, y, z)" by (cases p)
  have "length (fst (try_block f x y z t params fb ledId)) = length fb" by simp
  then show ?thesis
    by (cases "try_block f x y z t params fb ledId")
      (simp add: render_led_def Some p split: option.splits)
qed

lemma render_led_error:
  "snd (render_led coords f params t fc fb ledId)
     = (if handler_raises coords f params t fc ledId then Some TypeError else None)"
proof (cases "getCoordinate coords (int ledId)")
  case None
  then show ?thesis by (simp add: render_led_def handler_raises_def)
next
  case (Some p)
  obtain x y z where p: "p = (x, y, z)" by (cases p)
  obtain fb' e where tb: "try_block f x y z t params fb ledId = (fb', e)"
    by (cases "try_block f x y z t params fb ledId")
  have e: "thrown_by (f x y z t params ledId) = e"
    using try_block_error [of f x y z t params fb ledId] tb by simp
  show ?thesis
    by (simp add: render_led_def handler_raises_def Some p tb e catch_handler_def
        split: option.splits thrown.splits)
qed

lemma led_bytes_update_other:
  assumes "j \<noteq> i"
  shows "led_bytes (fb[i * 3 := a]) j = led_bytes fb j"
    "led_bytes (fb[Suc (i * 3) := a]) j = led_bytes fb j"
    "led_bytes (fb[Suc (Suc (i * 3)) := a]) j = led_bytes fb j"
proof -
  have "j * 3 \<noteq> i * 3" "j * 3 \<noteq> Suc (i * 3)" "j * 3 \<noteq> Suc (Suc (i * 3))"
    "Suc (j * 3) \<noteq> i * 3" "j * 3 \<noteq> i * 3" "Suc (j * 3) \<noteq> Suc (Suc (i * 3))"
    "Suc (Suc (j * 3)) \<noteq> i * 3" "Suc (Suc (j * 3)) \<noteq> Suc (i * 3)"
    using assms by presburger+
  then show "led_bytes (fb[i * 3 := a]) j = led_bytes fb j"
    "led_bytes (fb[Suc (i * 3) := a]) j = led_bytes fb j"
    "led_bytes (fb[Suc (Suc (i * 3)) := a]) j = led_bytes fb j"
    by (simp_all add: led_bytes_def flat_get_def)
qed

lemma try_block_other:
  "j \<noteq> i \<Longrightarrow> led_bytes (fst (try_block f x y z t params fb i)) j = led_bytes fb j"
  by (simp add: try_block_def store_cases led_bytes_update_other
      split: anim_result.splits component.splits)

lemma render_led_other:
  assumes "j \<noteq> i"
  shows "led_bytes (fst (render_led coords f params t fc fb i)) j = led_bytes fb j"
proof (cases "getCoordinate coords (int i)")
  case None
  then show ?thesis by (simp add: render_led_def)
next
  case (Some p)
  obtain x y z where p: "p = (x, y, z)" by (cases p)
  have "led_bytes (fst (try_block f x y z t params fb i)) j = led_bytes fb j"
    by (rule try_block_other [OF assms])
  then show ?thesis
    by (cases "try_block f x y z t params fb i")
      (simp add: render_led_def Some p split: option.splits)
qed

lemma try_block_same:
  assumes "i * 3 + 2 < length fb" and "led_bytes fb i = [0, 0, 0]"
    and "getCoordinate coords (int i) = Some (x, y, z)"
  shows "led_bytes (fst (try_block f x y z t params fb i)) i = led_color coords f params t i"
  using assms
  by (simp add: try_block_def led_color_def store_cases led_bytes_def flat_get_def
      split: anim_result.splits component.splits)

lemma render_led_same:
  assumes "i * 3 + 2 < length fb" and "led_bytes fb i = [0, 0, 0]"
  shows "led_bytes (fst (render_led coords f params t fc fb i)) i = led_color coords f params t i"
proof (cases "getCoordinate coords (int i)")
  case None
  then show ?thesis using assms(2) by (simp add: render_led_def led_color_def)
next
  case (Some p)
  obtain x y z where p: "p = (x, y, z)" by (cases p)
  have "led_bytes (fst (try_block f x y z t params fb i)) i = led_color coords f params t i"
    by (rule try_block_same [OF assms]) (simp add: Some p)
  then show ?thesis
    by (cases "try_block f x y z t params fb i")
      (simp add: render_led_def Some p split: option.splits)
qed

lemma led_bytes_zero: "led_bytes (replicate n 0) i = [0, 0, 0]"
  by (simp add: led_bytes_def flat_get_def)

lemma render_loop_append:
  "render_loop coords f params t fc (xs @ ys) fb =
     (case render_loop coords f params t fc xs fb of
        (fb', Some e) \<Rightarrow> (fb', Some e)
      | (fb', None) \<Rightarrow> render_loop coords f params t fc ys fb')"
  by (induction xs arbitrary: fb) (simp_all split: prod.splits option.splits)

lemma render_loop_length [simp]:
  "length (fst (render_loop coords f params t fc xs fb)) = length fb"
proof (induction xs arbitrary: fb)
  case Nil
  show ?case by simp
next
  case (Cons a xs)
  have l: "length (fst (render_led coords f params t fc fb a)) = length fb" by simp
  show ?case
    by (cases "render_led coords f params t fc fb a")
      (use l Cons.IH in \<open>auto split: option.splits\<close>)
qed

text \<open>The loop ends without an error when no handler raises.\<close>

lemma render_loop_no_error:
  assumes "\<forall>j\<in>set xs. \<not> handler_raises coords f params t fc j"
  shows "snd (render_loop coords f params t fc xs fb) = None"
  using assms
proof (induction xs arbitrary: fb)
  case Nil
  show ?case by simp
next
  case (Cons a xs)
  have "snd (render_led coords f params t fc fb a) = None"
    using Cons.prems by (simp add: render_led_error)
  then show ?case
    using Cons by (cases "render_led coords f params t fc fb a") simp
qed


lemma render_loop_colors:
  assumes "m * 3 \<le> length fb0" and "\<forall>j<m. \<not> handler_raises coords f params t fc j"
  shows "(\<forall>i<m. led_bytes fb0 i = [0, 0, 0]
          \<longrightarrow> led_bytes (fst (render_loop coords f params t fc [0..<m] fb0)) i
                = led_color coords f params t i)
    \<and> (\<forall>i\<ge>m. led_bytes (fst (render_loop coords f params t fc [0..<m] fb0)) i = led_bytes fb0 i)"
  using assms
proof (induction m)
  case 0
  then show ?case by simp
next
  case (Suc m)
  let ?r = "render_loop coords f params t fc [0..<m] fb0"
  let ?fb = "fst ?r"
  have ih: "\<forall>i<m. led_bytes fb0 i = [0, 0, 0] \<longrightarrow> led_bytes ?fb i = led_color coords f params t i"
    "\<forall>i\<ge>m. led_bytes ?fb i = led_bytes fb0 i"
    using Suc by simp_all
  have ne: "snd ?r = None"
    by (rule render_loop_no_error) (use Suc.prems in simp)
  have nm: "snd (render_led coords f params t fc ?fb m) = None"
    using Suc.prems by (simp add: render_led_error)
  have step: "fst (render_loop coords f params t fc [0..<Suc m] fb0)
      = fst (render_led coords f params t fc ?fb m)"
    using ne nm
    by (cases ?r; cases "render_led coords f params t fc ?fb m") (simp add: render_loop_append)
  have inb: "m * 3 + 2 < length ?fb" using Suc.prems by simp
  have a: "\<forall>i<Suc m. led_bytes fb0 i = [0, 0, 0]
      \<longrightarrow> led_bytes (fst (render_led coords f params t fc ?fb m)) i = led_color coords f params t i"
  proof (intro allI impI)
    fix i assume i: "i < Suc m" and z: "led_bytes fb0 i = [0, 0, 0]"
    show "led_bytes (fst (render_led coords f params t fc ?fb m)) i = led_color coords f params t i"
    proof (cases "i = m")
      case True
      have "led_bytes ?fb m = [0, 0, 0]" using ih(2) z True by simp
      then show ?thesis using True by (simp add: render_led_same [OF inb])
    next
      case False
      then have "i < m" using i by simp
      then show ?thesis using ih(1) z by (simp add: render_led_other [OF False])
    qed
  qed
  have b: "\<forall>i\<ge>Suc m. led_bytes (fst (render_led coords f params t fc ?fb m)) i = led_bytes fb0 i"
    using ih(2) by (simp add: render_led_other)
  show ?case unfolding step using a b by simp
qed

lemma render_leds_length [simp]:
  "length (fst (render_leds cfg coords f params t fc fb)) = length fb"
  by (simp add: render_leds_def)

lemma render_leds_no_error:
  assumes "\<forall>j<totalLeds cfg. \<not> handler_raises coords f params t fc j"
  shows "snd (render_leds cfg coords f params t fc fb) = None"
  unfolding render_leds_def by (rule render_loop_no_error) (use assms in simp)


lemma render_leds_color:
  assumes "length fb = totalLeds cfg * 3" and "i < totalLeds cfg"
    and "\<forall>j<totalLeds cfg. \<not> handler_raises coords f params t fc j"
  shows "led_bytes (fst (render_leds cfg coords f params t fc fb)) i = led_color coords f params t i"
proof -
  have "totalLeds cfg * 3 \<le> length (replicate (length fb) (0 :: u8))" using assms(1) by simp
  from render_loop_colors [OF this assms(3)] assms(2)
  show ?thesis by (simp add: render_leds_def led_bytes_zero)
qed

subsection \<open>Sending the frame\<close>

lemma send_channels_written:
  "port_open s \<Longrightarrow>
   send_channels cfg fb chs s
     = (s\<lparr>written := written s
            @ concat (map (\<lambda>ch. update_packet ch fb (ch * ledsPerChannel cfg * 3) (ledsPerChannel cfg))
                chs)\<rparr>, None)"
  by (induction chs arbitrary: s) (simp_all add: sendFrameFlat_def serial_write_def)


text \<open>A tick on which no handler raises, with the port open.\<close>

lemma renderFrame_safe:
  assumes "port_open ser"
    and "\<forall>j<totalLeds cfg. \<not> handler_raises coords f params t (frameCount eng) j"
  shows "renderFrame cfg coords f params t (eng, ser)
    = ((eng\<lparr>frameBuffer := fst (render_leds cfg coords f params t (frameCount eng) (frameBuffer eng))\<rparr>,
        ser\<lparr>written := written ser
          @ concat (map (\<lambda>ch. update_packet ch
                            (fst (render_leds cfg coords f params t (frameCount eng) (frameBuffer eng)))
                            (ch * ledsPerChannel cfg * 3) (ledsPerChannel cfg))
              [0..<numChannels cfg])
          @ [0xFD, 0xFF]\<rparr>), None)"
proof -
  let ?r = "render_leds cfg coords f params t (frameCount eng) (frameBuffer eng)"
  have "snd ?r = None" by (rule render_leds_no_error [OF assms(2)])
  then have r: "?r = (fst ?r, None)" by (cases ?r) simp
  show ?thesis
    unfolding renderFrame_def fst_conv snd_conv
    by (subst r) (simp add: Let_def send_channels_written [OF assms(1)] flush_def serial_write_def
        assms(1) CMD_FLUSH_def)
qed


text \<open>An animation wrapped by \<open>createSafeWrapper\<close> never makes the handler raise.\<close>

text \<open>
  What \<open>createSafeWrapper\<close> would give: a wrapped animation never throws \<open>null\<close>, and what
  it returns is an array of at least three entries.
\<close>

lemma safe_wrapper_result:
  "createSafeWrapper f x y z t params ledId = Throws ThrownOther
   \<or> (\<exists>res. createSafeWrapper f x y z t params ledId = Arr res \<and> 3 \<le> length res)"
  by (simp add: createSafeWrapper_def split: anim_result.splits thrown.splits)


lemma byte_of_int: "byte_of (Fin 1) = 255" "byte_of (Fin 0) = 0"
  using red_bytes by (simp_all add: byte_of_def)

subsection \<open>Faulty animation calls\<close>





subsection \<open>The bytes of a tick\<close>

lemma red_led_color:
  assumes "\<And>x y z t' p i. f x y z t' p i = Arr [Num (Fin 1), Num (Fin 0), Num (Fin 0)]"
    and "getCoordinate coords (int i) \<noteq> None"
  shows "led_color coords f params t i = [255, 0, 0]"
  using assms(2) by (auto simp add: led_color_def assms(1) byte_of_int)

lemma red_never_raises:
  assumes "\<And>x y z t' p i. f x y z t' p i = Arr [Num (Fin 1), Num (Fin 0), Num (Fin 0)]"
  shows "\<not> handler_raises coords f params t fc j"
  by (simp add: handler_raises_def thrown_by_def assms split: option.splits)

lemma led_bytes_two:
  assumes "length fb = 6" and "led_bytes fb 0 = [a, b, c]" and "led_bytes fb 1 = [d, e, g]"
  shows "fb = [a, b, c, d, e, g]"
proof -
  obtain v0 v1 v2 v3 v4 v5 where fb: "fb = [v0, v1, v2, v3, v4, v5]"
    using assms(1) by (auto simp add: length_Suc_conv eval_nat_numeral)
  show ?thesis using assms(2,3) by (simp add: fb led_bytes_def flat_get_def)
qed

lemma red_frame:
  assumes red: "\<And>x y z t' p i. f x y z t' p i = Arr [Num (Fin 1), Num (Fin 0), Num (Fin 0)]"
    and tot: "totalLeds cfg = 2"
    and c0: "getCoordinate coords 0 \<noteq> None" and c1: "getCoordinate coords 1 \<noteq> None"
    and len: "length fb = 6"
  shows "fst (render_leds cfg coords f params t fc fb) = [255, 0, 0, 255, 0, 0]"
proof -
  let ?fb = "fst (render_leds cfg coords f params t fc fb)"
  have l: "length fb = totalLeds cfg * 3" using len tot by simp
  have nr: "\<forall>j<totalLeds cfg. \<not> handler_raises coords f params t fc j"
    by (simp add: red_never_raises [OF red])
  have b0: "led_bytes ?fb 0 = [255, 0, 0]"
    using render_leds_color [OF l _ nr, of 0] c0 by (simp add: tot red_led_color [OF red])
  have b1: "led_bytes ?fb 1 = [255, 0, 0]"
    using render_leds_color [OF l _ nr, of 1] c1 by (simp add: tot red_led_color [OF red])
  have "length ?fb = 6" using len by simp
  then show ?thesis using b0 b1 by (rule led_bytes_two)
qed

lemma red_tick:
  assumes red: "\<And>x y z t' p i. f x y z t' p i = Arr [Num (Fin 1), Num (Fin 0), Num (Fin 0)]"
    and cfg: "ledsPerChannel cfg = 2" "numChannels cfg = 1" "totalLeds cfg = 2"
    and c0: "getCoordinate coords 0 \<noteq> None" and c1: "getCoordinate coords 1 \<noteq> None"
    and op: "port_open ser" and len: "length (frameBuffer eng) = 6"
  shows "renderFrame cfg coords f params t (eng, ser)
    = ((eng\<lparr>frameBuffer := [255, 0, 0, 255, 0, 0]\<rparr>,
        ser\<lparr>written := written ser @ [0xFE, 0, 2, 0, 0xFF, 0, 0, 0xFF, 0, 0, 0xFD, 0xFF]\<rparr>), None)"
proof -
  have nr: "\<forall>j<totalLeds cfg. \<not> handler_raises coords f params t (frameCount eng) j"
    by (simp add: red_never_raises [OF red])
  have fb: "fst (render_leds cfg coords f params t (frameCount eng) (frameBuffer eng))
      = [255, 0, 0, 255, 0, 0]"
    by (rule red_frame [OF red cfg(3) c0 c1 len])
  have up: "[0..<6] = [0, 1, 2, 3, 4, 5]" by (simp add: upt_rec)
  show ?thesis
    unfolding renderFrame_safe [OF op nr] fb
    by (simp add: cfg update_packet_def flat_get_def CMD_UPDATE_ONLY_def up)
qed

text \<open>
  C1 (as amended). With 1 channel of 2 LEDs (both with a coordinate), an open serial port
  and an animation that returns \<open>(1, 0, 0)\<close> whatever its arguments, one render tick
  writes exactly \<open>FE 00 02 00 FF 00 00 FF 00 00 FD FF\<close>: one Update-only packet for
  channel 0 with count 2 and two red pixels, then a Flush with the mask \<open>0xFF\<close>.
  The mask does not depend on the channels in use: for every configuration and every
  animation, a tick with the port open on which no handler raises writes one
  Update-only packet per configured channel, in order, and then \<open>FD FF\<close>.
\<close>

theorem solid_red_frame:
  assumes "port_open ser"
  shows "((\<forall>x y z t' p i. f x y z t' p i = Arr [Num (Fin 1), Num (Fin 0), Num (Fin 0)])
          \<and> ledsPerChannel cfg = 2 \<and> numChannels cfg = 1 \<and> totalLeds cfg = 2
          \<and> getCoordinate coords 0 \<noteq> None \<and> getCoordinate coords 1 \<noteq> None
          \<and> length (frameBuffer eng) = 6 \<longrightarrow>
          renderFrame cfg coords f params t (eng, ser)
            = ((eng\<lparr>frameBuffer := [255, 0, 0, 255, 0, 0]\<rparr>,
                ser\<lparr>written := written ser
                  @ [0xFE, 0, 2, 0, 0xFF, 0, 0, 0xFF, 0, 0, 0xFD, 0xFF]\<rparr>), None))
    \<and> ((\<forall>j<totalLeds cfg. \<not> handler_raises coords f params t (frameCount eng) j) \<longrightarrow>
          renderFrame cfg coords f params t (eng, ser)
            = ((eng\<lparr>frameBuffer :=
                     fst (render_leds cfg coords f params t (frameCount eng) (frameBuffer eng))\<rparr>,
                ser\<lparr>written := written ser
                  @ concat (map (\<lambda>ch. update_packet ch
                              (fst (render_leds cfg coords f params t (frameCount eng) (frameBuffer eng)))
                              (ch * ledsPerChannel cfg * 3) (ledsPerChannel cfg))
                      [0..<numChannels cfg])
                  @ [0xFD, 0xFF]\<rparr>), None))"
proof (intro conjI impI)
  assume h: "(\<forall>x y z t' p i. f x y z t' p i = Arr [Num (Fin 1), Num (Fin 0), Num (Fin 0)])
          \<and> ledsPerChannel cfg = 2 \<and> numChannels cfg = 1 \<and> totalLeds cfg = 2
          \<and> getCoordinate coords 0 \<noteq> None \<and> getCoordinate coords 1 \<noteq> None
          \<and> length (frameBuffer eng) = 6"
  then have red: "\<And>x y z t' p i. f x y z t' p i = Arr [Num (Fin 1), Num (Fin 0), Num (Fin 0)]" by blast
  from h have r: "ledsPerChannel cfg = 2" "numChannels cfg = 1" "totalLeds cfg = 2"
    "getCoordinate coords 0 \<noteq> None" "getCoordinate coords 1 \<noteq> None"
    "length (frameBuffer eng) = 6"
    by blast+
  show "renderFrame cfg coords f params t (eng, ser)
            = ((eng\<lparr>frameBuffer := [255, 0, 0, 255, 0, 0]\<rparr>,
                ser\<lparr>written := written ser
                  @ [0xFE, 0, 2, 0, 0xFF, 0, 0, 0xFF, 0, 0, 0xFD, 0xFF]\<rparr>), None)"
    by (rule red_tick [OF red r(1,2,3,4,5) assms r(6)])
next
  assume "\<forall>j<totalLeds cfg. \<not> handler_raises coords f params t (frameCount eng) j"
  then show "renderFrame cfg coords f params t (eng, ser)
            = ((eng\<lparr>frameBuffer :=
                     fst (render_leds cfg coords f params t (frameCount eng) (frameBuffer eng))\<rparr>,
                ser\<lparr>written := written ser
                  @ concat (map (\<lambda>ch. update_packet ch
                              (fst (render_leds cfg coords f params t (frameCount eng) (frameBuffer eng)))
                              (ch * ledsPerChannel cfg * 3) (ledsPerChannel cfg))
                      [0..<numChannels cfg])
                  @ [0xFD, 0xFF]\<rparr>), None)"
    by (rule renderFrame_safe [OF assms])
qed

theorem solid_red_frame_witness:
  "loadConfig s1_environment = Inr s1_config
   \<and> port_open \<lparr>port_open = True, written = []\<rparr>
   \<and> (\<forall>x y z t' p i. s1_red x y z t' p i = Arr [Num (Fin 1), Num (Fin 0), Num (Fin 0)])
   \<and> ledsPerChannel s1_config = 2 \<and> numChannels s1_config = 1 \<and> totalLeds s1_config = 2
   \<and> getCoordinate s1_coords 0 \<noteq> None \<and> getCoordinate s1_coords 1 \<noteq> None
   \<and> length (frameBuffer (engine_init s1_config)) = 6
   \<and> written (snd (fst s1_tick)) = [0xFE, 0, 2, 0, 0xFF, 0, 0, 0xFF, 0, 0, 0xFD, 0xFF]
   \<and> loadConfig two_channel_environment = Inr two_channel_config
   \<and> \<not> handler_raises s1_coords s1_red () (Fin 0) (frameCount (engine_init two_channel_config)) 0
   \<and> \<not> handler_raises s1_coords s1_red () (Fin 0) (frameCount (engine_init two_channel_config)) 1
   \<and> written (snd (fst two_channel_tick))
       = [0xFE, 0, 1, 0, 0xFF, 0, 0, 0xFE, 1, 1, 0, 0xFF, 0, 0, 0xFD, 0xFF]"
proof -
  have c1: "loadConfig s1_environment = Inr s1_config"
    by (simp add: loadConfig_def s1_environment_def default_environment_def s1_config_def)
  have c2: "loadConfig two_channel_environment = Inr two_channel_config"
    by (simp add: loadConfig_def two_channel_environment_def default_environment_def
        two_channel_config_def)
  have op: "port_open \<lparr>port_open = True, written = []\<rparr>" by simp
  have red: "\<forall>x y z t' p i. s1_red x y z t' p i = Arr [Num (Fin 1), Num (Fin 0), Num (Fin 0)]"
    by (simp add: s1_red_def)
  have h: "ledsPerChannel s1_config = 2" "numChannels s1_config = 1" "totalLeds s1_config = 2"
    "getCoordinate s1_coords 0 \<noteq> None" "getCoordinate s1_coords 1 \<noteq> None"
    "length (frameBuffer (engine_init s1_config)) = 6"
    by (simp_all add: getCoordinate_def s1_coords_def engine_init_def s1_config_def)
  have nr: "\<not> handler_raises s1_coords s1_red () (Fin 0) (frameCount (engine_init two_channel_config)) j"
    for j
    by (simp add: handler_raises_def thrown_by_def s1_red_def split: option.splits)
  note th1 = solid_red_frame [OF op, of s1_red s1_config s1_coords "engine_init s1_config" "()" "Fin 0"]
  note th2 = solid_red_frame [OF op, of s1_red two_channel_config s1_coords
      "engine_init two_channel_config" "()" "Fin 0"]
  from th1 red h have w1: "written (snd (fst s1_tick)) = [0xFE, 0, 2, 0, 0xFF, 0, 0, 0xFF, 0, 0, 0xFD, 0xFF]"
    by (simp add: s1_tick_def)
  have fb: "fst (render_leds two_channel_config s1_coords s1_red () (Fin 0)
        (frameCount (engine_init two_channel_config)) (frameBuffer (engine_init two_channel_config)))
      = [255, 0, 0, 255, 0, 0]"
    by (rule red_frame)
      (simp_all add: s1_red_def two_channel_config_def getCoordinate_def s1_coords_def engine_init_def)
  have up: "[0..<3] = [0, 1, 2]" "[0..<2] = [0, 1]" by (simp_all add: upt_rec)
  from th2 nr have "renderFrame two_channel_config s1_coords s1_red () (Fin 0)
      (engine_init two_channel_config, \<lparr>port_open = True, written = []\<rparr>)
    = ((engine_init two_channel_config
          \<lparr>frameBuffer := fst (render_leds two_channel_config s1_coords s1_red () (Fin 0)
              (frameCount (engine_init two_channel_config))
              (frameBuffer (engine_init two_channel_config)))\<rparr>,
        \<lparr>port_open = True, written = []\<rparr>\<lparr>written := written \<lparr>port_open = True, written = []\<rparr>
          @ concat (map (\<lambda>ch. update_packet ch
                      (fst (render_leds two_channel_config s1_coords s1_red () (Fin 0)
                         (frameCount (engine_init two_channel_config))
                         (frameBuffer (engine_init two_channel_config))))
                      (ch * ledsPerChannel two_channel_config * 3) (ledsPerChannel two_channel_config))
              [0..<numChannels two_channel_config])
          @ [0xFD, 0xFF]\<rparr>), None)"
    by blast
  then have w2: "written (snd (fst two_channel_tick))
       = [0xFE, 0, 1, 0, 0xFF, 0, 0, 0xFE, 1, 1, 0, 0xFF, 0, 0, 0xFD, 0xFF]"
    unfolding fb two_channel_tick_def
    by (simp add: two_channel_config_def update_packet_def flat_get_def CMD_UPDATE_ONLY_def up)
  from c1 op red h w1 c2 nr [of 0] nr [of 1] w2 show ?thesis by blast
qed

text \<open>
  The claim as stated fails: the byte sequence of scenario S1 ends with the flush mask
  \<open>0xFF\<close>, not \<open>0x01\<close>.
\<close>

theorem s1_flush_mask_not_01:
  "written (snd (fst s1_tick)) \<noteq> [0xFE, 0, 2, 0, 0xFF, 0, 0, 0xFF, 0, 0, 0xFD, 0x01]"
proof -
  have h1: "\<And>x y z t' p i. s1_red x y z t' p i = Arr [Num (Fin 1), Num (Fin 0), Num (Fin 0)]"
    by (simp add: s1_red_def)
  have h: "ledsPerChannel s1_config = 2" "numChannels s1_config = 1" "totalLeds s1_config = 2"
    "getCoordinate s1_coords 0 \<noteq> None" "getCoordinate s1_coords 1 \<noteq> None"
    "port_open \<lparr>port_open = True, written = []\<rparr>"
    "length (frameBuffer (engine_init s1_config)) = 6"
    by (simp_all add: getCoordinate_def s1_coords_def engine_init_def s1_config_def)
  from red_tick [of s1_red, OF h1 h, of "()" "Fin 0"]
  show ?thesis by (simp add: s1_tick_def)
qed

section \<open>Current limiter\<close>

lemma mask_255: "(255 :: u32) = mask 8"
  by (simp add: mask_eq_exp_minus_1)

lemma px_g_pack [simp]: "px_g (pack_grb g r b) = g"
  unfolding px_g_def pack_grb_def mask_255
  by (rule bit_word_eqI) (auto simp add: bit_simps dest: bit_imp_le_length)

lemma px_r_pack [simp]: "px_r (pack_grb g r b) = r"
  unfolding px_r_def pack_grb_def mask_255
  by (rule bit_word_eqI) (auto simp add: bit_simps dest: bit_imp_le_length)

lemma px_b_pack [simp]: "px_b (pack_grb g r b) = b"
  unfolding px_b_def pack_grb_def mask_255
  by (rule bit_word_eqI) (auto simp add: bit_simps dest: bit_imp_le_length)

lemma brightness_unat:
  "unat (calculate_brightness_units p) = unat (px_r p) + unat (px_g p) + unat (px_b p)"
proof -
  have b: "unat (x :: u8) \<le> 255" for x
    using unsigned_less [of x, where 'a = nat] by simp
  show ?thesis
    using b [of "px_r p"] b [of "px_g p"] b [of "px_b p"]
    by (simp add: calculate_brightness_units_def unat_word_ariths unat_ucast_u8_u32)
qed

lemma brightness_fold:
  assumes "unat a + sum_list (map (\<lambda>p. unat (px_r p) + unat (px_g p) + unat (px_b p)) xs) < 2 ^ 32"
  shows "unat (foldl (\<lambda>acc p. acc + calculate_brightness_units p) a xs)
    = unat a + sum_list (map (\<lambda>p. unat (px_r p) + unat (px_g p) + unat (px_b p)) xs)"
  using assms
proof (induction xs arbitrary: a)
  case Nil
  then show ?case by simp
next
  case (Cons p xs)
  have s: "unat (a + calculate_brightness_units p) = unat a + unat (calculate_brightness_units p)"
    using Cons.prems by (simp add: unat_word_ariths brightness_unat)
  show ?case
    using Cons.IH [of "a + calculate_brightness_units p"] Cons.prems
    by (simp add: s brightness_unat)
qed

lemma brightness_sum_le:
  "sum_list (map (\<lambda>p. unat (px_r p) + unat (px_g p) + unat (px_b p)) xs) \<le> 765 * length xs"
proof (induction xs)
  case Nil
  then show ?case by simp
next
  case (Cons p xs)
  have "unat (px_r p) + unat (px_g p) + unat (px_b p) \<le> 765"
    using brightness_le [of p] by (simp add: brightness_unat)
  then show ?case using Cons by simp
qed

lemma brightness_sum_bound:
  assumes "channel_wf ch"
  shows "brightness_sum ch \<le> 153000"
proof -
  have "length (take (unat (led_count ch)) (active_buffer ch)) \<le> 200"
    using active_buffer_length [OF assms] by (simp add: MAX_LEDS_PER_CHANNEL_def)
  then show ?thesis
    using brightness_sum_le [of "take (unat (led_count ch)) (active_buffer ch)"]
    unfolding brightness_sum_def by linarith
qed

lemma total_brightness_unat:
  assumes "channel_wf ch"
  shows "unat (total_brightness ch) = brightness_sum ch"
proof -
  have "brightness_sum ch < 2 ^ 32" using brightness_sum_bound [OF assms] by simp
  then show ?thesis
    unfolding total_brightness_def brightness_sum_def
    by (subst brightness_fold) simp_all
qed


lemma f32_mono: "x \<le> y \<Longrightarrow> f32 x \<le> f32 (y :: 'a::floor_ceiling)"
  unfolding f32_def by (rule fl_round_mono) simp

lemma f32_of_int: "\<bar>m\<bar> < 2 ^ 24 \<Longrightarrow> f32 (of_int m :: 'a::floor_ceiling) = of_int m"
  unfolding f32_def by (rule fl_round_of_int) simp_all

lemma f32_of_nat: "n < 2 ^ 24 \<Longrightarrow> f32 (of_nat n :: 'a::floor_ceiling) = of_nat n"
  using f32_of_int [of "int n", where 'a = 'a] by simp

lemma f32_nonneg: "0 \<le> x \<Longrightarrow> 0 \<le> f32 (x :: 'a::floor_ceiling)"
  unfolding f32_def by (rule fl_round_nonneg)

lemma limit_scale_eq:
  assumes "unat tb \<le> 153000"
  shows "limit_scale tb = f32 (of_nat CURRENT_LIMIT_THRESHOLD / of_nat (unat tb))"
proof -
  have "f32 (of_nat CURRENT_LIMIT_THRESHOLD :: rat) = of_nat CURRENT_LIMIT_THRESHOLD"
    by (rule f32_of_nat) (simp add: CURRENT_LIMIT_THRESHOLD_def)
  moreover have "f32 (of_nat (unat tb) :: rat) = of_nat (unat tb)"
    by (rule f32_of_nat) (use assms in simp)
  ultimately show ?thesis by (simp add: limit_scale_def)
qed

lemma limit_scale_range:
  assumes "unat tb \<le> 153000" and "CURRENT_LIMIT_THRESHOLD < unat tb"
  shows "0 \<le> limit_scale tb" and "limit_scale tb \<le> 1"
proof -
  have q: "(of_nat CURRENT_LIMIT_THRESHOLD :: rat) / of_nat (unat tb) \<le> 1"
    using assms(2) by (simp del: of_nat_unat)
  have "f32 ((of_nat CURRENT_LIMIT_THRESHOLD :: rat) / of_nat (unat tb)) \<le> f32 1"
    using q by (rule f32_mono)
  moreover have "f32 (1 :: rat) = 1" using f32_of_int [of 1, where 'a = rat] by simp
  ultimately show "limit_scale tb \<le> 1" by (simp add: limit_scale_eq [OF assms(1)])
  show "0 \<le> limit_scale tb"
    unfolding limit_scale_eq [OF assms(1)] by (rule f32_nonneg) (simp del: of_nat_unat)
qed

lemma scale_u8_unat:
  assumes "0 \<le> s" and "s \<le> 1"
  shows "unat (scale_u8 s c) = nat \<lfloor>f32 (of_nat (unat c) * s)\<rfloor>"
proof -
  let ?v = "f32 (of_nat (unat c) * s)"
  have c: "unat c \<le> 255" using unsigned_less [of c, where 'a = nat] by simp
  have nn: "0 \<le> (of_nat (unat c) :: rat) * s" using assms(1) by (simp del: of_nat_unat)
  have "(of_nat (unat c) :: rat) * s \<le> of_nat (unat c) * 1"
    using assms(2) by (intro mult_left_mono) (simp_all del: of_nat_unat)
  also have "\<dots> \<le> 255" using c by (simp del: of_nat_unat)
  finally have "?v \<le> f32 255" by (rule f32_mono)
  moreover have "f32 (255 :: rat) = 255" using f32_of_int [of 255, where 'a = rat] by simp
  ultimately have hi: "?v \<le> 255" by simp
  have lo: "0 \<le> ?v" using nn by (rule f32_nonneg)
  have f0: "0 \<le> \<lfloor>?v\<rfloor>" using lo by simp
  have f1: "\<lfloor>?v\<rfloor> \<le> 255" using hi by (simp add: floor_le_iff)
  have "unat (word_of_int \<lfloor>?v\<rfloor> :: u8) = nat (take_bit 8 \<lfloor>?v\<rfloor>)"
    by (simp add: unsigned_of_int)
  also have "take_bit 8 \<lfloor>?v\<rfloor> = \<lfloor>?v\<rfloor>"
    using f0 f1 by (simp add: take_bit_int_eq_self)
  finally show ?thesis using lo by (simp add: scale_u8_def c_trunc_def)
qed

lemma limiting_general:
  assumes wf: "channel_wf ch"
  shows "(CURRENT_LIMIT_THRESHOLD < brightness_sum ch \<longrightarrow>
      (\<forall>i. i < unat (led_count ch) \<and> i < MAX_LEDS_PER_CHANNEL \<longrightarrow>
         unat (px_r (active_buffer (apply_current_limiting ch) ! i))
           = nat \<lfloor>f32 (of_nat (unat (px_r (active_buffer ch ! i)))
                * f32 (of_nat CURRENT_LIMIT_THRESHOLD / of_nat (brightness_sum ch) :: rat))\<rfloor>
       \<and> unat (px_g (active_buffer (apply_current_limiting ch) ! i))
           = nat \<lfloor>f32 (of_nat (unat (px_g (active_buffer ch ! i)))
                * f32 (of_nat CURRENT_LIMIT_THRESHOLD / of_nat (brightness_sum ch) :: rat))\<rfloor>
       \<and> unat (px_b (active_buffer (apply_current_limiting ch) ! i))
           = nat \<lfloor>f32 (of_nat (unat (px_b (active_buffer ch ! i)))
                * f32 (of_nat CURRENT_LIMIT_THRESHOLD / of_nat (brightness_sum ch) :: rat))\<rfloor>)
      \<and> current_limit_events (apply_current_limiting ch) = current_limit_events ch + 1)
    \<and> (brightness_sum ch \<le> CURRENT_LIMIT_THRESHOLD \<longrightarrow> apply_current_limiting ch = ch)"
proof -
  note tb = total_brightness_unat [OF wf]
  have b: "unat (total_brightness ch) \<le> 153000" using brightness_sum_bound [OF wf] tb by simp
  have cmp: "of_nat CURRENT_LIMIT_THRESHOLD < total_brightness ch \<longleftrightarrow> CURRENT_LIMIT_THRESHOLD < brightness_sum ch"
    using tb by (simp add: word_less_nat_alt CURRENT_LIMIT_THRESHOLD_def unat_of_nat)
  have len: "length (active_buffer ch) = MAX_LEDS_PER_CHANNEL" by (rule active_buffer_length [OF wf])
  have low: "apply_current_limiting ch = ch" if "brightness_sum ch \<le> CURRENT_LIMIT_THRESHOLD"
    using that cmp by (simp add: apply_current_limiting_def Let_def)
  have high: "(\<forall>i. i < unat (led_count ch) \<and> i < MAX_LEDS_PER_CHANNEL \<longrightarrow>
         unat (px_r (active_buffer (apply_current_limiting ch) ! i))
           = nat \<lfloor>f32 (of_nat (unat (px_r (active_buffer ch ! i)))
                * f32 (of_nat CURRENT_LIMIT_THRESHOLD / of_nat (brightness_sum ch) :: rat))\<rfloor>
       \<and> unat (px_g (active_buffer (apply_current_limiting ch) ! i))
           = nat \<lfloor>f32 (of_nat (unat (px_g (active_buffer ch ! i)))
                * f32 (of_nat CURRENT_LIMIT_THRESHOLD / of_nat (brightness_sum ch) :: rat))\<rfloor>
       \<and> unat (px_b (active_buffer (apply_current_limiting ch) ! i))
           = nat \<lfloor>f32 (of_nat (unat (px_b (active_buffer ch ! i)))
                * f32 (of_nat CURRENT_LIMIT_THRESHOLD / of_nat (brightness_sum ch) :: rat))\<rfloor>)
      \<and> current_limit_events (apply_current_limiting ch) = current_limit_events ch + 1"
    if over: "CURRENT_LIMIT_THRESHOLD < brightness_sum ch"
  proof -
    define s where "s = limit_scale (total_brightness ch)"
    have over': "CURRENT_LIMIT_THRESHOLD < unat (total_brightness ch)" using over tb by simp
    have s: "s = f32 (of_nat CURRENT_LIMIT_THRESHOLD / of_nat (brightness_sum ch))"
      unfolding s_def limit_scale_eq [OF b] tb ..
    have s0: "0 \<le> s" and s1: "s \<le> 1"
      unfolding s_def using limit_scale_range [OF b over'] by simp_all
    have ne: "led_count ch \<noteq> 0"
    proof
      assume "led_count ch = 0"
      then have "brightness_sum ch = 0" by (simp add: brightness_sum_def)
      with over show False by simp
    qed
    define n where "n = unat (led_count ch)"
    have ap: "apply_current_limiting ch =
      (set_active_buffer (map (scale_pixel s) (take n (active_buffer ch)) @ drop n (active_buffer ch)) ch)
        \<lparr>current_limit_events := current_limit_events ch + 1\<rparr>"
      using ne over cmp by (simp add: apply_current_limiting_def Let_def s_def n_def)
    have ab: "active_buffer (apply_current_limiting ch)
        = map (scale_pixel s) (take n (active_buffer ch)) @ drop n (active_buffer ch)"
      by (simp add: ap set_active_buffer_def active_buffer_def)
    have px: "active_buffer (apply_current_limiting ch) ! i = scale_pixel s (active_buffer ch ! i)"
      if "i < n" "i < MAX_LEDS_PER_CHANNEL" for i
      using that len by (simp add: ab nth_append)
    have ev: "current_limit_events (apply_current_limiting ch) = current_limit_events ch + 1"
      by (simp add: ap set_active_buffer_def)
    show ?thesis
      using px ev
      by (simp add: scale_pixel_def scale_u8_unat [OF s0 s1] s [symmetric] n_def)
  qed
  from low high show ?thesis by blast
qed


text \<open>
  C3 (as amended): for a channel whose brightness sum over the first \<open>led_count\<close> LEDs
  of the active buffer is strictly above the threshold, the limiter replaces each of
  the R, G and B components \<open>c\<close> of each of these LEDs by the single-precision product
  of \<open>c\<close> and \<open>scale = threshold / sum\<close> (itself rounded to single precision),
  truncated towards zero, and increments the channel's limit-event counter; a channel
  whose sum is at most the threshold is left as it is.
\<close>

theorem current_limiter_scales_by_truncation:
  assumes "channel_wf ch"
  shows "(CURRENT_LIMIT_THRESHOLD < brightness_sum ch \<longrightarrow>
      (\<forall>i. i < unat (led_count ch) \<and> i < MAX_LEDS_PER_CHANNEL \<longrightarrow>
         unat (px_r (active_buffer (apply_current_limiting ch) ! i))
           = nat \<lfloor>f32 (of_nat (unat (px_r (active_buffer ch ! i)))
                * f32 (of_nat CURRENT_LIMIT_THRESHOLD / of_nat (brightness_sum ch) :: rat))\<rfloor>
       \<and> unat (px_g (active_buffer (apply_current_limiting ch) ! i))
           = nat \<lfloor>f32 (of_nat (unat (px_g (active_buffer ch ! i)))
                * f32 (of_nat CURRENT_LIMIT_THRESHOLD / of_nat (brightness_sum ch) :: rat))\<rfloor>
       \<and> unat (px_b (active_buffer (apply_current_limiting ch) ! i))
           = nat \<lfloor>f32 (of_nat (unat (px_b (active_buffer ch ! i)))
                * f32 (of_nat CURRENT_LIMIT_THRESHOLD / of_nat (brightness_sum ch) :: rat))\<rfloor>)
      \<and> current_limit_events (apply_current_limiting ch) = current_limit_events ch + 1)
    \<and> (brightness_sum ch \<le> CURRENT_LIMIT_THRESHOLD \<longrightarrow> apply_current_limiting ch = ch)"
  using assms by (rule limiting_general)

lemma c3_channel_wf: "channel_wf c3_channel"
  by (simp add: c3_channel_def channel_wf_def ws2812_channel_init_def)

lemma c3_channel_sum: "brightness_sum c3_channel = 40000"
  by (simp add: brightness_sum_def c3_channel_def ws2812_channel_init_def active_buffer_def
      MAX_LEDS_PER_CHANNEL_def sum_list_replicate)

lemma init_channel_sum: "brightness_sum ws2812_channel_init = 0"
  by (simp add: brightness_sum_def ws2812_channel_init_def)

lemma f32_quarters:
  assumes "\<bar>m\<bar> < 2 ^ 24"
  shows "f32 (of_int m / 4 :: rat) = of_int m / 4"
  unfolding f32_def
  by (rule fl_round_exact [of _ m "- 2"]) (use assms in \<open>simp_all add: power_int_minus_divide\<close>)

lemma c3_scaled_red:
  "nat \<lfloor>f32 (of_nat (unat (px_r (active_buffer c3_channel ! 0)))
       * f32 (of_nat CURRENT_LIMIT_THRESHOLD / of_nat (brightness_sum c3_channel) :: rat))\<rfloor> = 189"
proof -
  have r: "unat (px_r (active_buffer c3_channel ! 0)) = 253"
    by (simp add: c3_channel_def ws2812_channel_init_def active_buffer_def MAX_LEDS_PER_CHANNEL_def)
  have s: "f32 (of_nat CURRENT_LIMIT_THRESHOLD / of_nat (brightness_sum c3_channel) :: rat) = 3 / 4"
    using f32_quarters [of 3] by (simp add: c3_channel_sum CURRENT_LIMIT_THRESHOLD_def)
  have p: "(of_nat 253 :: rat) * (3 / 4) = of_int 759 / 4" by simp
  have e: "f32 (of_int 759 / 4 :: rat) = of_int 759 / 4" by (rule f32_quarters) simp
  have "\<lfloor>of_int 759 / 4 :: rat\<rfloor> = 189" by (rule floor_unique) simp_all
  then show ?thesis unfolding r s p e by simp
qed

theorem current_limiter_scales_by_truncation_witness:
  "channel_wf c3_channel \<and> CURRENT_LIMIT_THRESHOLD < brightness_sum c3_channel
   \<and> 0 < unat (led_count c3_channel) \<and> 0 < MAX_LEDS_PER_CHANNEL
   \<and> unat (px_r (active_buffer (apply_current_limiting c3_channel) ! 0)) = 189
   \<and> current_limit_events (apply_current_limiting c3_channel) = current_limit_events c3_channel + 1
   \<and> channel_wf ws2812_channel_init \<and> brightness_sum ws2812_channel_init \<le> CURRENT_LIMIT_THRESHOLD
   \<and> apply_current_limiting ws2812_channel_init = ws2812_channel_init"
proof -
  have h: "channel_wf c3_channel" by (rule c3_channel_wf)
  have o: "CURRENT_LIMIT_THRESHOLD < brightness_sum c3_channel"
    by (simp add: c3_channel_sum CURRENT_LIMIT_THRESHOLD_def)
  have i: "0 < unat (led_count c3_channel)" "0 < MAX_LEDS_PER_CHANNEL"
    by (simp_all add: c3_channel_def MAX_LEDS_PER_CHANNEL_def)
  have h2: "channel_wf ws2812_channel_init"
    by (simp add: channel_wf_def ws2812_channel_init_def)
  have u: "brightness_sum ws2812_channel_init \<le> CURRENT_LIMIT_THRESHOLD"
    by (simp add: init_channel_sum)
  from current_limiter_scales_by_truncation [OF h] o i
  have "unat (px_r (active_buffer (apply_current_limiting c3_channel) ! 0)) = 189"
    "current_limit_events (apply_current_limiting c3_channel) = current_limit_events c3_channel + 1"
    by (simp_all only: c3_scaled_red [symmetric])
  moreover from current_limiter_scales_by_truncation [OF h2] u
  have "apply_current_limiting ws2812_channel_init = ws2812_channel_init" by blast
  ultimately show ?thesis using h o i h2 u by blast
qed

text \<open>
  The claim as stated fails: on a channel of 64 LEDs \<open>(253, 253, 119)\<close> the sum is
  40000, the scale is \<open>3/4\<close> and the red component becomes 189, while
  \<open>253 * 3/4 = 189.75\<close> rounded to nearest is 190.
\<close>

theorem limiter_truncates_not_rounds:
  "brightness_sum c3_channel = 40000
   \<and> unat (px_r (active_buffer c3_channel ! 0)) = 253
   \<and> unat (px_r (active_buffer (apply_current_limiting c3_channel) ! 0)) = 189
   \<and> rne (253 * (of_nat CURRENT_LIMIT_THRESHOLD / of_nat (brightness_sum c3_channel)) :: rat) = 190"
proof -
  have o: "CURRENT_LIMIT_THRESHOLD < brightness_sum c3_channel"
    by (simp add: c3_channel_sum CURRENT_LIMIT_THRESHOLD_def)
  have i: "0 < unat (led_count c3_channel)" "0 < MAX_LEDS_PER_CHANNEL"
    by (simp_all add: c3_channel_def MAX_LEDS_PER_CHANNEL_def)
  from limiting_general [OF c3_channel_wf] o i
  have 1: "unat (px_r (active_buffer (apply_current_limiting c3_channel) ! 0)) = 189"
    by (simp only: c3_scaled_red [symmetric])
  have 2: "unat (px_r (active_buffer c3_channel ! 0)) = 253"
    by (simp add: c3_channel_def ws2812_channel_init_def active_buffer_def MAX_LEDS_PER_CHANNEL_def)
  have "rne (759 / 4 :: rat) = 190" by (rule rne_eqI) simp_all
  then have 3: "rne (253 * (of_nat CURRENT_LIMIT_THRESHOLD / of_nat (brightness_sum c3_channel)) :: rat) = 190"
    by (simp add: c3_channel_sum CURRENT_LIMIT_THRESHOLD_def)
  from c3_channel_sum 1 2 3 show ?thesis by blast
qed

section \<open>Gamma table\<close>

lemma f32_half_units:
  assumes "\<bar>m\<bar> < 2 ^ 24"
  shows "f32 (of_int m / 2 :: 'a::floor_ceiling) = of_int m / 2"
  unfolding f32_def
  by (rule fl_round_exact [of _ m "- 1"]) (use assms in \<open>simp_all add: power_int_minus_divide\<close>)

lemma f32_one: "f32 (1 :: 'a::floor_ceiling) = 1"
  using f32_of_int [of 1, where 'a = 'a] by simp

lemma gamma_value_mono:
  fixes powf :: "'a::floor_ceiling \<Rightarrow> 'a \<Rightarrow> 'a"
  assumes mono: "\<And>x y. 0 \<le> x \<Longrightarrow> x \<le> y \<Longrightarrow> y \<le> 1 \<Longrightarrow> powf x g \<le> powf y g"
    and ij: "i \<le> j" and j: "j \<le> (255 :: nat)"
  shows "f32 (f32 (powf (f32 (of_nat i / 255)) g * 255) + 1 / 2)
      \<le> f32 (f32 (powf (f32 (of_nat j / 255)) g * 255) + 1 / 2)"
proof -
  have n0: "0 \<le> f32 (of_nat i / 255 :: 'a)" by (rule f32_nonneg) simp
  have "(of_nat i :: 'a) / 255 \<le> of_nat j / 255" using ij by (simp add: divide_right_mono)
  then have n1: "f32 (of_nat i / 255 :: 'a) \<le> f32 (of_nat j / 255)" by (rule f32_mono)
  have "(of_nat j :: 'a) \<le> of_nat 255" using j by (simp only: of_nat_le_iff)
  then have "(of_nat j :: 'a) / 255 \<le> 1" by simp
  then have "f32 (of_nat j / 255 :: 'a) \<le> f32 1" by (rule f32_mono)
  then have n2: "f32 (of_nat j / 255 :: 'a) \<le> 1" by (simp add: f32_one)
  have "powf (f32 (of_nat i / 255)) g \<le> powf (f32 (of_nat j / 255)) g"
    by (rule mono [OF n0 n1 n2])
  then have "powf (f32 (of_nat i / 255)) g * 255 \<le> powf (f32 (of_nat j / 255)) g * 255" by simp
  then have "f32 (powf (f32 (of_nat i / 255)) g * 255) \<le> f32 (powf (f32 (of_nat j / 255)) g * 255)"
    by (rule f32_mono)
  then have "f32 (powf (f32 (of_nat i / 255)) g * 255) + 1 / 2
      \<le> f32 (powf (f32 (of_nat j / 255)) g * 255) + 1 / 2" by simp
  then show ?thesis by (rule f32_mono)
qed

lemma gamma_value_range:
  fixes powf :: "'a::floor_ceiling \<Rightarrow> 'a \<Rightarrow> 'a"
  assumes range: "\<And>x. 0 \<le> x \<Longrightarrow> x \<le> 1 \<Longrightarrow> 0 \<le> powf x g \<and> powf x g \<le> 1"
    and j: "j \<le> (255 :: nat)"
  shows "0 \<le> f32 (f32 (powf (f32 (of_nat j / 255)) g * 255) + 1 / 2)"
    and "f32 (f32 (powf (f32 (of_nat j / 255)) g * 255) + 1 / 2) \<le> 511 / 2"
proof -
  have n0: "0 \<le> f32 (of_nat j / 255 :: 'a)" by (rule f32_nonneg) simp
  have "(of_nat j :: 'a) \<le> of_nat 255" using j by (simp only: of_nat_le_iff)
  then have "(of_nat j :: 'a) / 255 \<le> 1" by simp
  then have "f32 (of_nat j / 255 :: 'a) \<le> f32 1" by (rule f32_mono)
  then have n1: "f32 (of_nat j / 255 :: 'a) \<le> 1" by (simp add: f32_one)
  note r = range [OF n0 n1]
  have c0: "0 \<le> f32 (powf (f32 (of_nat j / 255)) g * 255)"
    by (rule f32_nonneg) (use r in simp)
  have "powf (f32 (of_nat j / 255)) g * 255 \<le> of_int 255" using r by simp
  then have "f32 (powf (f32 (of_nat j / 255)) g * 255) \<le> f32 (of_int 255)" by (rule f32_mono)
  then have c1: "f32 (powf (f32 (of_nat j / 255)) g * 255) \<le> 255"
    using f32_of_int [of 255, where 'a = 'a] by simp
  show "0 \<le> f32 (f32 (powf (f32 (of_nat j / 255)) g * 255) + 1 / 2)"
    by (rule f32_nonneg) (use c0 in simp)
  have "f32 (powf (f32 (of_nat j / 255)) g * 255) + 1 / 2 \<le> of_int 511 / 2" using c1 by simp
  then have "f32 (f32 (powf (f32 (of_nat j / 255)) g * 255) + 1 / 2) \<le> f32 (of_int 511 / 2)"
    by (rule f32_mono)
  then show "f32 (f32 (powf (f32 (of_nat j / 255)) g * 255) + 1 / 2) \<le> 511 / 2"
    using f32_half_units [of 511, where 'a = 'a] by simp
qed

lemma unat_word_of_floor:
  fixes v :: "'a::floor_ceiling"
  assumes "0 \<le> v" and "v \<le> 511 / 2"
  shows "unat (word_of_int (c_trunc v) :: u8) = nat \<lfloor>v\<rfloor>"
proof -
  have f0: "0 \<le> \<lfloor>v\<rfloor>" using assms(1) by simp
  have "v < of_int 256" using assms(2) by simp
  then have f1: "\<lfloor>v\<rfloor> < 256" by (simp only: floor_less_iff)
  have "unat (word_of_int \<lfloor>v\<rfloor> :: u8) = nat (take_bit 8 \<lfloor>v\<rfloor>)"
    by (simp add: unsigned_of_int)
  also have "take_bit 8 \<lfloor>v\<rfloor> = \<lfloor>v\<rfloor>"
    using f0 f1 by (simp add: take_bit_int_eq_self)
  finally show ?thesis using assms(1) by (simp add: c_trunc_def)
qed

lemma gamma_entry_mono:
  fixes powf :: "'a::floor_ceiling \<Rightarrow> 'a \<Rightarrow> 'a"
  assumes mono: "\<And>x y. 0 \<le> x \<Longrightarrow> x \<le> y \<Longrightarrow> y \<le> 1 \<Longrightarrow> powf x g \<le> powf y g"
    and range: "\<And>x. 0 \<le> x \<Longrightarrow> x \<le> 1 \<Longrightarrow> 0 \<le> powf x g \<and> powf x g \<le> 1"
    and ij: "i \<le> j" and j: "j \<le> 255"
  shows "gamma_entry powf g i \<le> gamma_entry powf g j"
proof (cases "i = 0")
  case True
  then show ?thesis by (simp add: gamma_entry_def)
next
  case False
  then have j0: "j \<noteq> 0" using ij by simp
  have i: "i \<le> 255" using ij j by simp
  let ?v = "\<lambda>k. f32 (f32 (powf (f32 (of_nat k / 255)) g * 255) + 1 / 2)"
  have ei: "unat (gamma_entry powf g i) = nat \<lfloor>?v i\<rfloor>"
    using False unat_word_of_floor [OF gamma_value_range [of powf g, OF range i]]
    by (simp add: gamma_entry_def Let_def)
  have ej: "unat (gamma_entry powf g j) = nat \<lfloor>?v j\<rfloor>"
    using j0 unat_word_of_floor [OF gamma_value_range [of powf g, OF range j]]
    by (simp add: gamma_entry_def Let_def)
  have "?v i \<le> ?v j" by (rule gamma_value_mono [of powf g, OF mono ij j])
  then have "\<lfloor>?v i\<rfloor> \<le> \<lfloor>?v j\<rfloor>" by (rule floor_mono)
  then show ?thesis by (simp add: word_le_nat_alt ei ej nat_mono)
qed

lemma powf_rounded_mono:
  assumes "0 < g" and "0 \<le> x" and "x \<le> y"
  shows "powf_rounded x g \<le> powf_rounded y g"
  unfolding powf_rounded_def
  by (rule f32_mono) (use assms in \<open>simp add: powr_mono2\<close>)

lemma powf_rounded_range:
  assumes "0 < g" and "0 \<le> x" and "x \<le> 1"
  shows "0 \<le> powf_rounded x g \<and> powf_rounded x g \<le> 1"
proof -
  have "x powr g \<le> 1 powr g" using assms by (intro powr_mono2) simp_all
  then have "x powr g \<le> 1" by simp
  then have "f32 (x powr g) \<le> f32 1" by (rule f32_mono)
  then have "powf_rounded x g \<le> 1" by (simp add: powf_rounded_def f32_one)
  moreover have "0 \<le> powf_rounded x g"
    unfolding powf_rounded_def by (rule f32_nonneg) simp
  ultimately show ?thesis by simp
qed

text \<open>
  C8: the gamma table computed at boot, with any exponent \<open>gamma > 0\<close>, is
  nondecreasing: for \<open>i \<le> j \<le> 255\<close>, entry \<open>i\<close> is at most entry \<open>j\<close>.
\<close>

theorem gamma_table_nondecreasing:
  assumes "0 < gamma" and "i \<le> j" and "j \<le> 255"
  shows "calc_gamma_table powf_rounded gamma ! i \<le> calc_gamma_table powf_rounded gamma ! j"
proof -
  have "gamma_entry powf_rounded gamma i \<le> gamma_entry powf_rounded gamma j"
  proof (rule gamma_entry_mono [of powf_rounded gamma])
    show "powf_rounded x gamma \<le> powf_rounded y gamma" if "0 \<le> x" "x \<le> y" "y \<le> 1" for x y
      using assms(1) that(1,2) by (rule powf_rounded_mono)
    show "0 \<le> powf_rounded x gamma \<and> powf_rounded x gamma \<le> 1" if "0 \<le> x" "x \<le> 1" for x
      using assms(1) that by (rule powf_rounded_range)
  qed (use assms(2,3) in simp_all)
  then show ?thesis
    using assms(2,3) by (simp add: calc_gamma_table_def del: upt_Suc)
qed

theorem gamma_table_nondecreasing_witness:
  "(0 :: real) < 28 / 10 \<and> (16 :: nat) \<le> 32 \<and> (32 :: nat) \<le> 255
   \<and> calc_gamma_table powf_rounded (28 / 10) ! 16 \<le> calc_gamma_table powf_rounded (28 / 10) ! 32"
proof -
  have h: "(0 :: real) < 28 / 10" "(16 :: nat) \<le> 32" "(32 :: nat) \<le> 255" by simp_all
  from gamma_table_nondecreasing [OF h] h show ?thesis by blast
qed

section \<open>Coordinate normalisation\<close>

lemma f64_zero [simp]: "f64 0 = Fin 0"
  by (simp add: f64_def)

lemma f64_overflow: "f64 (2 ^ 1024) = PInf"
proof -
  have "fl_round 53 (- 1074) (2 ^ 1024 :: rat) = 2 ^ 1024"
    by (rule fl_round_exact [of _ 1 1024]) simp_all
  then show ?thesis by (simp add: f64_def)
qed

text \<open>
  C6 fails on the code: a coordinate \<open>Infinity\<close> passes the \<open>isNaN\<close> check of \<open>load\<close>
  and makes the normalised x of its LED NaN; two finite coordinates whose difference
  overflows do the same. The degenerate axes (y and z here) are \<open>0.5\<close> as claimed.
\<close>

theorem infinite_coordinate_gives_nan:
  "load infinity_file
     = Inr [0 \<mapsto> (NaN, Fin (1 / 2), Fin (1 / 2)), 1 \<mapsto> (Fin 0, Fin (1 / 2), Fin (1 / 2))]
   \<and> \<not> in_unit_interval NaN
   \<and> load overflow_file
     = Inr [0 \<mapsto> (NaN, Fin (1 / 2), Fin (1 / 2)), 1 \<mapsto> (Fin 0, Fin (1 / 2), Fin (1 / 2))]"
proof -
  have a: "load infinity_file
     = Inr [0 \<mapsto> (NaN, Fin (1 / 2), Fin (1 / 2)), 1 \<mapsto> (Fin 0, Fin (1 / 2), Fin (1 / 2))]"
    by (simp add: load_def infinity_file_def List.map_filter_def normalizeCoordinates_def
        axis_min_def axis_max_def normalize_axis_def js_sub_def)
  have b: "load overflow_file
     = Inr [0 \<mapsto> (NaN, Fin (1 / 2), Fin (1 / 2)), 1 \<mapsto> (Fin 0, Fin (1 / 2), Fin (1 / 2))]"
    by (simp add: load_def overflow_file_def List.map_filter_def normalizeCoordinates_def
        axis_min_def axis_max_def normalize_axis_def js_sub_def f64_overflow [simplified] Let_def)
  from a b show ?thesis by simp
qed

section \<open>Takeover server\<close>

lemma fl64_between:
  fixes x :: rat
  assumes "lo = of_int m1 * 2 powi k1" "\<bar>m1\<bar> < 2 ^ 53" "- 1074 \<le> k1"
    and "hi = of_int m2 * 2 powi k2" "\<bar>m2\<bar> < 2 ^ 53" "- 1074 \<le> k2"
    and "lo \<le> x" "x \<le> hi"
  shows "lo \<le> fl_round 53 (- 1074) x" and "fl_round 53 (- 1074) x \<le> hi"
proof -
  have "fl_round 53 (- 1074) lo \<le> fl_round 53 (- 1074) x"
    by (rule fl_round_mono) (use assms(7) in simp_all)
  moreover have "fl_round 53 (- 1074) lo = lo" by (rule fl_round_exact [OF assms(1,2,3)])
  ultimately show "lo \<le> fl_round 53 (- 1074) x" by simp
  have "fl_round 53 (- 1074) x \<le> fl_round 53 (- 1074) hi"
    by (rule fl_round_mono) (use assms(8) in simp_all)
  moreover have "fl_round 53 (- 1074) hi = hi" by (rule fl_round_exact [OF assms(4,5,6)])
  ultimately show "fl_round 53 (- 1074) x \<le> hi" by simp
qed

lemma f64_Fin:
  assumes "\<bar>fl_round 53 (- 1074) x\<bar> < 2 ^ 1024"
  shows "f64 x = Fin (fl_round 53 (- 1074) x)"
proof -
  have "\<not> 2 ^ 1024 \<le> fl_round 53 (- 1074) x" "\<not> fl_round 53 (- 1074) x \<le> - (2 ^ 1024)"
    using assms by linarith+
  then show ?thesis by (simp only: f64_def Let_def if_False)
qed

lemma f64_small:
  fixes x :: rat
  assumes "\<bar>x\<bar> \<le> of_int B" and "B < 2 ^ 53"
  shows "f64 x = Fin (fl_round 53 (- 1074) x)" and "\<bar>fl_round 53 (- 1074) x\<bar> \<le> of_int B"
proof -
  have B0: "0 \<le> B" using assms(1) by (smt (verit) abs_ge_zero of_int_0_le_iff order_trans)
  have lo: "(- of_int B :: rat) = of_int (- B) * 2 powi 0" by simp
  have hi: "(of_int B :: rat) = of_int B * 2 powi 0" by simp
  have m: "\<bar>- B\<bar> < 2 ^ 53" "\<bar>B\<bar> < 2 ^ 53" using B0 assms(2) by simp_all
  have x: "- of_int B \<le> x" "x \<le> of_int B" using assms(1) by linarith+
  note b = fl64_between [OF lo m(1) _ hi m(2) _ x]
  show r: "\<bar>fl_round 53 (- 1074) x\<bar> \<le> of_int B" using b by simp
  have "(of_int B :: rat) < of_int (2 ^ 53)" using assms(2) by (simp only: of_int_less_iff)
  also have "(of_int (2 ^ 53) :: rat) < 2 ^ 1024" by simp
  finally have "\<bar>fl_round 53 (- 1074) x\<bar> < 2 ^ 1024" using r by linarith
  then show "f64 x = Fin (fl_round 53 (- 1074) x)" by (rule f64_Fin)
qed

text \<open>
  Milliseconds to seconds in binary64: with \<open>d = 1000 * q + r\<close>, \<open>0 \<le> r < 1000\<close>, the
  rounded quotient lies in \<open>[q, q + 1023/1024]\<close>, equals \<open>q\<close> when \<open>r = 0\<close> and is at
  least \<open>q + 1/1024\<close> otherwise.
\<close>

lemma seconds_rounded:
  fixes d :: int
  assumes "\<bar>d\<bar> < 2 ^ 50"
  defines "a \<equiv> fl_round 53 (- 1074) (of_int d / 1000 :: rat)"
  shows "of_int (d div 1000) \<le> a" and "a \<le> of_int (d div 1000) + 1023 / 1024"
    and "d mod 1000 = 0 \<Longrightarrow> a = of_int (d div 1000)"
    and "d mod 1000 \<noteq> 0 \<Longrightarrow> of_int (d div 1000) + 1 / 1024 \<le> a"
proof -
  define q where "q = d div 1000"
  define r where "r = d mod 1000"
  have d: "d = 1000 * q + r" by (simp add: q_def r_def)
  have r: "0 \<le> r" "r < 1000" by (simp_all add: r_def)
  have p2: "(2 :: int) ^ 50 = 1125899906842624" "(2 :: int) ^ 41 = 2199023255552" by simp_all
  have q: "\<bar>q\<bar> < 2 ^ 41" using assms(1) d r unfolding p2 by linarith
  have x: "(of_int d / 1000 :: rat) = of_int q + of_int r / 1000" by (simp add: d)
  have rq: "0 \<le> (of_int r :: rat)" "(of_int r :: rat) \<le> 999" using r by simp_all
  have e0: "a = of_int q" if "r = 0"
  proof -
    have "a = fl_round 53 (- 1074) (of_int q :: rat)" using that by (simp add: a_def x)
    also have "\<dots> = of_int q" by (rule fl_round_of_int) (use q in simp_all)
    finally show ?thesis .
  qed
  have lo0: "(of_int q + 1 / 1024 :: rat) = of_int (1024 * q + 1) * 2 powi (- 10)"
    by (simp add: power_int_minus_divide field_simps)
  have hi0: "(of_int q + 1023 / 1024 :: rat) = of_int (1024 * q + 1023) * 2 powi (- 10)"
    by (simp add: power_int_minus_divide field_simps)
  have m: "\<bar>1024 * q + 1\<bar> < 2 ^ 53" "\<bar>1024 * q + 1023\<bar> < 2 ^ 53" using q by simp_all
  have e1: "of_int q + 1 / 1024 \<le> a \<and> a \<le> of_int q + 1023 / 1024" if "r \<noteq> 0"
  proof -
    have "1 \<le> r" using that r by simp
    then have r1: "(1 :: rat) \<le> of_int r" by simp
    have l: "(of_int q + 1 / 1024 :: rat) \<le> of_int d / 1000" using r1 by (simp add: x)
    have h: "(of_int d / 1000 :: rat) \<le> of_int q + 1023 / 1024" using rq by (simp add: x)
    from fl64_between [OF lo0 m(1) _ hi0 m(2) _ l h] show ?thesis by (simp add: a_def)
  qed
  show "of_int (d div 1000) \<le> a"
    using e0 e1 unfolding q_def [symmetric] by (cases "r = 0") auto
  show "a \<le> of_int (d div 1000) + 1023 / 1024"
    using e0 e1 unfolding q_def [symmetric] by (cases "r = 0") auto
  show "d mod 1000 = 0 \<Longrightarrow> a = of_int (d div 1000)"
    using e0 by (simp add: q_def r_def)
  show "d mod 1000 \<noteq> 0 \<Longrightarrow> of_int (d div 1000) + 1 / 1024 \<le> a"
    using e1 by (simp add: q_def r_def)
qed


lemma div_1000_le_iff: "(E \<le> d div 1000) = (1000 * E \<le> (d :: int))"
  by linarith

lemma ceiling_seconds: "\<lceil>(of_int (1000 * E - d) :: rat) / 1000\<rceil> = E - d div 1000"
proof -
  have "\<lceil>(of_int (1000 * E - d) :: rat) / of_int 1000\<rceil> = - (- (1000 * E - d) div 1000)"
    by (rule ceiling_divide_eq_div)
  also have "- (1000 * E - d) = d - 1000 * E" by simp
  also have "(d - 1000 * E) div 1000 = d div 1000 - E" by linarith
  finally show ?thesis by simp
qed

lemma connection_age:
  assumes ct: "activeClientConnectTime srv = Some ct" and d: "\<bar>now - ct\<bar> < 2 ^ 50"
    and E: "0 \<le> E" "E < 2 ^ 40"
  shows "\<exists>a. connectionAge now srv = Fin a
    \<and> (js_ge (Fin a) (Fin (of_int E)) \<longleftrightarrow> 1000 * E \<le> now - ct)
    \<and> (now - ct < 1000 * E \<longrightarrow>
         js_ceil (js_sub (Fin (of_int E)) (Fin a))
           = Fin (of_int \<lceil>(of_int (1000 * E - (now - ct)) :: rat) / 1000\<rceil>))"
proof -
  define dd where "dd = now - ct"
  define a where "a = fl_round 53 (- 1074) (of_int dd / 1000 :: rat)"
  define q where "q = dd div 1000"
  have p2: "(2 :: int) ^ 50 = 1125899906842624" "(2 :: int) ^ 53 = 9007199254740992"
    "(2 :: int) ^ 40 = 1099511627776" "(2 :: int) ^ 41 = 2199023255552"
    "(2 :: int) ^ 42 = 4398046511104" by simp_all
  have dd: "\<bar>dd\<bar> < 2 ^ 50" using d by (simp add: dd_def)
  have dd53: "\<bar>dd\<bar> < 2 ^ 53" using dd unfolding p2 by linarith
  note sr = seconds_rounded [OF dd, folded a_def q_def]
  have qb: "\<bar>q\<bar> < 2 ^ 41" using dd unfolding p2 q_def by linarith
  \<comment> \<open>the subtraction of the two clock readings is exact\<close>
  have sub: "js_sub (Fin (of_int now)) (Fin (of_int ct)) = Fin (of_int dd)"
    using f64_of_int [OF dd53] by (simp add: js_sub_def dd_def)
  have "\<bar>of_int dd / 1000 :: rat\<bar> \<le> \<bar>of_int dd\<bar>" by (simp add: abs_le_iff) linarith
  also have "\<dots> \<le> of_int (2 ^ 50)" using dd by (simp only: of_int_abs [symmetric] of_int_le_iff less_imp_le)
  finally have "f64 (of_int dd / 1000) = Fin a"
    unfolding a_def by (rule f64_small(1)) simp
  then have age: "connectionAge now srv = Fin a"
    by (simp add: connectionAge_def ct sub)
  have ge: "js_ge (Fin a) (Fin (of_int E)) \<longleftrightarrow> 1000 * E \<le> now - ct"
  proof -
    have "js_ge (Fin a) (Fin (of_int E)) \<longleftrightarrow> of_int E \<le> a" by (auto simp add: js_ge_def)
    also have "\<dots> \<longleftrightarrow> E \<le> q"
    proof
      assume "of_int E \<le> a"
      then have "(of_int E :: rat) < of_int (q + 1)" using sr(2) by simp
      then have "E < q + 1" by (simp only: of_int_less_iff)
      then show "E \<le> q" by simp
    next
      assume "E \<le> q"
      then have "(of_int E :: rat) \<le> of_int q" by (simp only: of_int_le_iff)
      then show "of_int E \<le> a" using sr(1) by simp
    qed
    also have "\<dots> \<longleftrightarrow> 1000 * E \<le> dd" unfolding q_def by (rule div_1000_le_iff)
    finally show ?thesis by (simp add: dd_def)
  qed
  have retry: "js_ceil (js_sub (Fin (of_int E)) (Fin a))
           = Fin (of_int \<lceil>(of_int (1000 * E - (now - ct)) :: rat) / 1000\<rceil>)"
    if lt: "now - ct < 1000 * E"
  proof -
    have "\<not> 1000 * E \<le> dd" using lt by (simp add: dd_def)
    then have qE: "q < E" unfolding q_def using div_1000_le_iff [of E dd] by simp
    define b where "b = fl_round 53 (- 1074) (of_int E - a)"
    have Eq: "\<bar>E - q\<bar> < 2 ^ 42" using qb E unfolding p2 by linarith
    have c: "\<lceil>b\<rceil> = E - q \<and> \<bar>b\<bar> \<le> of_int (2 ^ 52)"
    proof (cases "dd mod 1000 = 0")
      case True
      have "of_int E - a = (of_int (E - q) :: rat)" using sr(3) [OF True] by simp
      moreover have "fl_round 53 (- 1074) (of_int (E - q) :: rat) = of_int (E - q)"
        by (rule fl_round_of_int) (use Eq in simp_all)
      ultimately have b: "b = of_int (E - q)" by (simp add: b_def)
      have "\<bar>of_int (E - q) :: rat\<bar> \<le> of_int (2 ^ 52)"
        using Eq by (simp only: of_int_abs [symmetric] of_int_le_iff) simp
      then show ?thesis by (simp add: b)
    next
      case False
      have lo0: "(of_int (E - q) - 1023 / 1024 :: rat) = of_int (1024 * (E - q) - 1023) * 2 powi (- 10)"
        by (simp add: power_int_minus_divide field_simps)
      have hi0: "(of_int (E - q) - 1 / 1024 :: rat) = of_int (1024 * (E - q) - 1) * 2 powi (- 10)"
        by (simp add: power_int_minus_divide field_simps)
      have m1: "\<bar>1024 * (E - q) - 1023\<bar> < 2 ^ 53"
        using Eq unfolding p2 by simp
      have m2: "\<bar>1024 * (E - q) - 1\<bar> < 2 ^ 53"
        using Eq unfolding p2 by simp
      have l: "(of_int (E - q) - 1023 / 1024 :: rat) \<le> of_int E - a" using sr(2) by simp
      have h: "of_int E - a \<le> (of_int (E - q) - 1 / 1024 :: rat)" using sr(4) [OF False] by simp
      note bb = fl64_between [OF lo0 m1 _ hi0 m2 _ l h, folded b_def]
      have "\<lceil>b\<rceil> = E - q"
        by (rule ceiling_unique) (use bb in simp_all)
      moreover have "\<bar>b\<bar> \<le> of_int (2 ^ 52)"
      proof -
        have "\<bar>of_int (E - q) :: rat\<bar> \<le> of_int (2 ^ 51)"
          using Eq by (simp only: of_int_abs [symmetric] of_int_le_iff) simp
        then show ?thesis using bb by (simp add: abs_le_iff)
      qed
      ultimately show ?thesis by simp
    qed
    have "(of_int (2 ^ 52) :: rat) < 2 ^ 1024" by simp
    with c have "\<bar>b\<bar> < 2 ^ 1024" by linarith
    then have "f64 (of_int E - a) = Fin b"
      unfolding b_def by (rule f64_Fin)
    then have "js_ceil (js_sub (Fin (of_int E)) (Fin a)) = Fin (of_int (E - q))"
      using c by (simp add: js_sub_def)
    then show ?thesis
      by (simp only: ceiling_seconds dd_def [symmetric] q_def)
  qed
  from age ge retry show ?thesis by blast
qed


lemma acceptConnection_active:
  "activeClient (fst (fst (acceptConnection cfg ws t (srv, eng, ser)))) = Some ws"
  "activeClientConnectTime (fst (fst (acceptConnection cfg ws t (srv, eng, ser)))) = Some t"
  "take (length (events srv)) (events (fst (fst (acceptConnection cfg ws t (srv, eng, ser)))))
     = events srv"
  by (simp_all add: acceptConnection_def Let_def resetIdleTimer_def
      split: prod.splits option.splits)

lemma handleConnection_none:
  assumes "activeClient srv = None"
  shows "handleConnection cfg ws now stamp now' (srv, eng, ser)
    = acceptConnection cfg ws now' (srv, eng, ser)"
  using assms by (simp add: handleConnection_def)

lemma handleConnection_evict:
  assumes "activeClient srv = Some old" and "activeClientConnectTime srv = Some ct"
    and "\<bar>now - ct\<bar> < 2 ^ 50"
    and "0 \<le> wsEvictionAge cfg" and "wsEvictionAge cfg < 2 ^ 40"
    and "1000 * wsEvictionAge cfg \<le> now - ct"
  shows "handleConnection cfg ws now stamp now' (srv, eng, ser)
    = acceptConnection cfg ws now'
        (srv\<lparr>events := events srv
            @ [Sent old \<lparr>error = ''Connection evicted by new client'', code = EVICTED,
                        timestamp = stamp, retryAfter = None\<rparr>,
               Closed old]\<rparr>, eng, ser)"
proof -
  from connection_age [OF assms(2,3,4,5)] obtain a where
    a: "connectionAge now srv = Fin a"
      "js_ge (Fin a) (Fin (of_int (wsEvictionAge cfg))) \<longleftrightarrow> 1000 * wsEvictionAge cfg \<le> now - ct"
    by blast
  show ?thesis
    using assms(1,6) a
    by (simp add: handleConnection_def Let_def sendError_def closeClient_def)
qed

lemma handleConnection_busy:
  assumes "activeClient srv = Some old" and "activeClientConnectTime srv = Some ct"
    and "\<bar>now - ct\<bar> < 2 ^ 50"
    and "0 \<le> wsEvictionAge cfg" and "wsEvictionAge cfg < 2 ^ 40"
    and "now - ct < 1000 * wsEvictionAge cfg"
  shows "handleConnection cfg ws now stamp now' (srv, eng, ser)
    = ((srv\<lparr>events := events srv
            @ [Sent ws \<lparr>error = ''Server busy - exclusive connection in use'', code = SERVER_BUSY,
                       timestamp = stamp,
                       retryAfter = Some (Fin (of_int
                         \<lceil>(of_int (1000 * wsEvictionAge cfg - (now - ct)) :: rat) / 1000\<rceil>))\<rparr>,
               Closed ws]\<rparr>, eng, ser), None)"
proof -
  from connection_age [OF assms(2,3,4,5)] obtain a where
    a: "connectionAge now srv = Fin a"
      "js_ge (Fin a) (Fin (of_int (wsEvictionAge cfg))) \<longleftrightarrow> 1000 * wsEvictionAge cfg \<le> now - ct"
      "js_ceil (js_sub (Fin (of_int (wsEvictionAge cfg))) (Fin a))
           = Fin (of_int \<lceil>(of_int (1000 * wsEvictionAge cfg - (now - ct)) :: rat) / 1000\<rceil>)"
    using assms(6) by blast
  have "\<not> js_ge (Fin a) (Fin (of_int (wsEvictionAge cfg)))" using a(2) assms(6) by simp
  then show ?thesis
    using assms(1) a(1,3)
    by (simp add: handleConnection_def Let_def sendError_def closeClient_def)
qed

text \<open>
  C4: on a connection attempt, with the configured eviction age \<open>E\<close> in seconds
  (\<open>0 \<le> E < 2^40\<close>) and clock readings in milliseconds: with no active client the new
  client becomes the active one and its connect time is recorded; with an active client
  of age at least \<open>E\<close> (\<open>1000 * E \<le> now - connect_time\<close>) the old client is sent the
  JSON error \<open>EVICTED\<close> and closed, and the new client becomes the active one; otherwise
  the new client is sent \<open>SERVER_BUSY\<close> with \<open>retryAfter\<close> the ceiling of
  \<open>E - age\<close> in seconds and is closed, and nothing else changes. The age is computed in
  binary64, which agrees with the exact quotient on all three counts.
\<close>

theorem connection_attempt:
  assumes "0 \<le> wsEvictionAge cfg" and "wsEvictionAge cfg < 2 ^ 40"
  shows "(activeClient srv = None \<longrightarrow>
        activeClient (fst (fst (handleConnection cfg ws now stamp now' (srv, eng, ser)))) = Some ws
      \<and> activeClientConnectTime (fst (fst (handleConnection cfg ws now stamp now' (srv, eng, ser))))
          = Some now')
    \<and> (\<forall>old ct. activeClient srv = Some old \<and> activeClientConnectTime srv = Some ct
          \<and> \<bar>now - ct\<bar> < 2 ^ 50 \<and> 1000 * wsEvictionAge cfg \<le> now - ct \<longrightarrow>
        take (length (events srv) + 2)
          (events (fst (fst (handleConnection cfg ws now stamp now' (srv, eng, ser)))))
          = events srv
            @ [Sent old \<lparr>error = ''Connection evicted by new client'', code = EVICTED,
                        timestamp = stamp, retryAfter = None\<rparr>,
               Closed old]
      \<and> activeClient (fst (fst (handleConnection cfg ws now stamp now' (srv, eng, ser)))) = Some ws
      \<and> activeClientConnectTime (fst (fst (handleConnection cfg ws now stamp now' (srv, eng, ser))))
          = Some now')
    \<and> (\<forall>old ct. activeClient srv = Some old \<and> activeClientConnectTime srv = Some ct
          \<and> \<bar>now - ct\<bar> < 2 ^ 50 \<and> now - ct < 1000 * wsEvictionAge cfg \<longrightarrow>
        handleConnection cfg ws now stamp now' (srv, eng, ser)
          = ((srv\<lparr>events := events srv
                @ [Sent ws \<lparr>error = ''Server busy - exclusive connection in use'',
                           code = SERVER_BUSY, timestamp = stamp,
                           retryAfter = Some (Fin (of_int
                             \<lceil>(of_int (1000 * wsEvictionAge cfg - (now - ct)) :: rat) / 1000\<rceil>))\<rparr>,
                   Closed ws]\<rparr>, eng, ser), None))"
proof (intro conjI allI impI)
  assume n: "activeClient srv = None"
  show "activeClient (fst (fst (handleConnection cfg ws now stamp now' (srv, eng, ser)))) = Some ws"
    by (simp only: handleConnection_none [OF n] acceptConnection_active)
  show "activeClientConnectTime (fst (fst (handleConnection cfg ws now stamp now' (srv, eng, ser))))
          = Some now'"
    by (simp only: handleConnection_none [OF n] acceptConnection_active)
next
  fix old ct
  assume h: "activeClient srv = Some old \<and> activeClientConnectTime srv = Some ct
          \<and> \<bar>now - ct\<bar> < 2 ^ 50 \<and> 1000 * wsEvictionAge cfg \<le> now - ct"
  let ?srv2 = "srv\<lparr>events := events srv
            @ [Sent old \<lparr>error = ''Connection evicted by new client'', code = EVICTED,
                        timestamp = stamp, retryAfter = None\<rparr>,
               Closed old]\<rparr>"
  from h have h1: "activeClient srv = Some old" and h2: "activeClientConnectTime srv = Some ct"
    and h3: "\<bar>now - ct\<bar> < 2 ^ 50" and h4: "1000 * wsEvictionAge cfg \<le> now - ct"
    by blast+
  have e: "handleConnection cfg ws now stamp now' (srv, eng, ser)
      = acceptConnection cfg ws now' (?srv2, eng, ser)"
    by (rule handleConnection_evict [OF h1 h2 h3 assms h4])
  have l: "length (events srv) + 2 = length (events ?srv2)" by simp
  show "take (length (events srv) + 2)
          (events (fst (fst (handleConnection cfg ws now stamp now' (srv, eng, ser)))))
          = events srv
            @ [Sent old \<lparr>error = ''Connection evicted by new client'', code = EVICTED,
                        timestamp = stamp, retryAfter = None\<rparr>,
               Closed old]"
    unfolding e l by (simp only: acceptConnection_active) simp
  show "activeClient (fst (fst (handleConnection cfg ws now stamp now' (srv, eng, ser)))) = Some ws"
    by (simp only: e acceptConnection_active)
  show "activeClientConnectTime (fst (fst (handleConnection cfg ws now stamp now' (srv, eng, ser))))
          = Some now'"
    by (simp only: e acceptConnection_active)
next
  fix old ct
  assume h: "activeClient srv = Some old \<and> activeClientConnectTime srv = Some ct
          \<and> \<bar>now - ct\<bar> < 2 ^ 50 \<and> now - ct < 1000 * wsEvictionAge cfg"
  from h have h1: "activeClient srv = Some old" and h2: "activeClientConnectTime srv = Some ct"
    and h3: "\<bar>now - ct\<bar> < 2 ^ 50" and h4: "now - ct < 1000 * wsEvictionAge cfg"
    by blast+
  show "handleConnection cfg ws now stamp now' (srv, eng, ser)
          = ((srv\<lparr>events := events srv
                @ [Sent ws \<lparr>error = ''Server busy - exclusive connection in use'',
                           code = SERVER_BUSY, timestamp = stamp,
                           retryAfter = Some (Fin (of_int
                             \<lceil>(of_int (1000 * wsEvictionAge cfg - (now - ct)) :: rat) / 1000\<rceil>))\<rparr>,
                   Closed ws]\<rparr>, eng, ser), None)"
    by (rule handleConnection_busy [OF h1 h2 h3 assms h4])
qed


theorem connection_attempt_witness:
  "0 \<le> wsEvictionAge s3_config \<and> wsEvictionAge s3_config < 2 ^ 40
   \<and> activeClient s3_idle = None
   \<and> activeClient (fst (fst (handleConnection s3_config 1 0 0 0 (s3_idle, s3_engine, s3_serial))))
       = Some 1
   \<and> activeClient s3_busy = Some 1 \<and> activeClientConnectTime s3_busy = Some 0
   \<and> \<bar>500 - 0 :: int\<bar> < 2 ^ 50 \<and> (500 - 0 :: int) < 1000 * wsEvictionAge s3_config
   \<and> handleConnection s3_config 2 500 500 500 (s3_busy, s3_engine, s3_serial)
       = ((s3_busy\<lparr>events := events s3_busy
             @ [Sent 2 \<lparr>error = ''Server busy - exclusive connection in use'', code = SERVER_BUSY,
                       timestamp = 500, retryAfter = Some (Fin 1)\<rparr>,
                Closed 2]\<rparr>, s3_engine, s3_serial), None)
   \<and> \<bar>1200 - 0 :: int\<bar> < 2 ^ 50 \<and> 1000 * wsEvictionAge s3_config \<le> (1200 - 0 :: int)
   \<and> take (length (events s3_busy) + 2)
         (events (fst (fst (handleConnection s3_config 3 1200 1200 1200 (s3_busy, s3_engine, s3_serial)))))
       = events s3_busy
         @ [Sent 1 \<lparr>error = ''Connection evicted by new client'', code = EVICTED,
                   timestamp = 1200, retryAfter = None\<rparr>,
            Closed 1]
   \<and> activeClient (fst (fst (handleConnection s3_config 3 1200 1200 1200 (s3_busy, s3_engine, s3_serial))))
       = Some 3"
proof -
  have E: "0 \<le> wsEvictionAge s3_config" "wsEvictionAge s3_config < 2 ^ 40"
    by (simp_all add: s3_config_def loadConfig_def)
  have i: "activeClient s3_idle = None" by (simp add: s3_idle_def)
  have b: "activeClient s3_busy = Some 1" "activeClientConnectTime s3_busy = Some 0"
    by (simp_all add: s3_busy_def)
  have t1: "\<bar>500 - 0 :: int\<bar> < 2 ^ 50" "(500 - 0 :: int) < 1000 * wsEvictionAge s3_config"
    by (simp_all add: s3_config_def loadConfig_def)
  have t2: "\<bar>1200 - 0 :: int\<bar> < 2 ^ 50" "1000 * wsEvictionAge s3_config \<le> (1200 - 0 :: int)"
    by (simp_all add: s3_config_def loadConfig_def)
  have c: "\<lceil>(of_int (1000 * wsEvictionAge s3_config - (500 - 0)) :: rat) / 1000\<rceil> = 1"
    by (simp add: s3_config_def loadConfig_def) (rule ceiling_unique, simp_all)
  note th1 = connection_attempt [OF E, of s3_idle 1 0 0 0 s3_engine s3_serial]
  note th2 = connection_attempt [OF E, of s3_busy 2 500 500 500 s3_engine s3_serial]
  note th3 = connection_attempt [OF E, of s3_busy 3 1200 1200 1200 s3_engine s3_serial]
  from th1 i have r1:
    "activeClient (fst (fst (handleConnection s3_config 1 0 0 0 (s3_idle, s3_engine, s3_serial)))) = Some 1"
    by blast
  from th2 b t1 have r2: "handleConnection s3_config 2 500 500 500 (s3_busy, s3_engine, s3_serial)
       = ((s3_busy\<lparr>events := events s3_busy
             @ [Sent 2 \<lparr>error = ''Server busy - exclusive connection in use'', code = SERVER_BUSY,
                       timestamp = 500, retryAfter = Some (Fin (of_int
                         \<lceil>(of_int (1000 * wsEvictionAge s3_config - (500 - 0)) :: rat) / 1000\<rceil>))\<rparr>,
                Closed 2]\<rparr>, s3_engine, s3_serial), None)"
    by blast
  from th3 b t2 have r3: "take (length (events s3_busy) + 2)
         (events (fst (fst (handleConnection s3_config 3 1200 1200 1200 (s3_busy, s3_engine, s3_serial)))))
       = events s3_busy
         @ [Sent 1 \<lparr>error = ''Connection evicted by new client'', code = EVICTED,
                   timestamp = 1200, retryAfter = None\<rparr>,
            Closed 1]
     \<and> activeClient (fst (fst (handleConnection s3_config 3 1200 1200 1200 (s3_busy, s3_engine, s3_serial))))
       = Some 3"
    by blast
  from r2 have r2b: "handleConnection s3_config 2 500 500 500 (s3_busy, s3_engine, s3_serial)
       = ((s3_busy\<lparr>events := events s3_busy
             @ [Sent 2 \<lparr>error = ''Server busy - exclusive connection in use'', code = SERVER_BUSY,
                       timestamp = 500, retryAfter = Some (Fin 1)\<rparr>,
                Closed 2]\<rparr>, s3_engine, s3_serial), None)"
    unfolding c by simp
  from E i r1 b t1 r2b t2 r3 show ?thesis by blast
qed

end
